theory Spec2Isabelle
  imports Main "HOL-Library.Word"
begin

section \<open>Rendezvous naming (UnityIPC constructor, \<open>hashCode\<close>)\<close>

text \<open>
  JavaScript numbers are modelled as \<open>int\<close>; every intermediate value of \<open>hashCode\<close> is an
  integer of magnitude below \<open>2 ^ 53\<close>, so the double arithmetic of the source is exact.
  The bitwise operators \<open><<\<close> and \<open>&\<close> first convert their operands with ToInt32, which
  is written out here. A JavaScript string is a sequence of UTF-16 code units; \<open>hashCode\<close>
  takes the list of code units (\<open>charCodeAt\<close>), and \<open>charCodes\<close> gives the code units of a
  string of the model (one unit per character).
\<close>

definition toInt32 :: "int \<Rightarrow> int" where
  "toInt32 x = (x + 2 ^ 31) mod 2 ^ 32 - 2 ^ 31"

definition shiftLeft5 :: "int \<Rightarrow> int" where
  \<comment> \<open>\<open>hash << 5\<close>\<close>
  "shiftLeft5 h = toInt32 (toInt32 h * 2 ^ 5)"

definition hashStep :: "int \<Rightarrow> nat \<Rightarrow> int" where
  \<comment> \<open>the loop body: \<open>hash = ((hash << 5) - hash) + char; hash = hash & hash\<close>\<close>
  "hashStep hash c = (let hash1 = (shiftLeft5 hash - hash) + int c in toInt32 hash1)"

fun hashLoop :: "nat list \<Rightarrow> int \<Rightarrow> int" where
  "hashLoop [] hash = hash"
| "hashLoop (c # cs) hash = hashLoop cs (hashStep hash c)"

definition hashCode :: "nat list \<Rightarrow> int" where
  "hashCode str = hashLoop str 0"

definition charCodes :: "string \<Rightarrow> nat list" where
  "charCodes s = map of_char s"

definition digitChar :: "nat \<Rightarrow> char" where
  "digitChar d = ''0123456789'' ! d"

fun decimal :: "nat \<Rightarrow> string" where
  \<comment> \<open>\<open>Number.prototype.toString()\<close> of a non-negative integer\<close>
  "decimal n = (if n < 10 then [digitChar n] else decimal (n div 10) @ [digitChar (n mod 10)])"

declare decimal.simps [simp del]

definition derivePipeName :: "string \<Rightarrow> string" where
  \<comment> \<open>constructor: \<open>Math.abs(this.hashCode(projectPath)).toString()\<close> behind the prefix\<close>
  "derivePipeName projectPath =
     (let projectHash = decimal (nat \<bar>hashCode (charCodes projectPath)\<bar>)
      in ''unity-mcp-'' @ projectHash)"

definition backslash :: char where
  "backslash = CHR 0x5C"

definition pipePath :: "string \<Rightarrow> string \<Rightarrow> string" where
  \<comment> \<open>\<open>connect\<close>: the path handed to \<open>net.createConnection\<close>\<close>
  "pipePath platform name =
     (if platform = ''win32''
      then [backslash, backslash, CHR ''.'', backslash] @ ''pipe'' @ [backslash] @ name
      else ''/tmp/'' @ name)"

text \<open>The 32-bit hash the specification speaks of: \<open>h \<mapsto> 31 * h + c\<close>, wrapped to a signed
  32-bit integer after every character.\<close>

fun hash32 :: "nat list \<Rightarrow> int \<Rightarrow> int" where
  "hash32 [] h = h"
| "hash32 (c # cs) h = hash32 cs (toInt32 (31 * h + int c))"


section \<open>Process locator (UnityProcessDetector)\<close>

text \<open>
  Strings of the process listing are lists of characters with codes below 256. The
  white space of \<open>String.prototype.trim\<close> and of the regular expression class \<open>\s\<close>
  in that range is tab, line feed, vertical tab, form feed, carriage return, space and the
  no-break space.
\<close>

definition isWhitespace :: "char \<Rightarrow> bool" where
  "isWhitespace c = (of_char c \<in> {9, 10, 11, 12, 13, 32, 160 :: nat})"

definition trim :: "string \<Rightarrow> string" where
  "trim s = rev (dropWhile isWhitespace (rev (dropWhile isWhitespace s)))"

definition startsWith :: "string \<Rightarrow> string \<Rightarrow> bool" where
  "startsWith s p = (take (length p) s = p)"

fun includesStr :: "string \<Rightarrow> string \<Rightarrow> bool" where
  "includesStr [] sub = (sub = [])"
| "includesStr (c # cs) sub = (startsWith (c # cs) sub \<or> includesStr cs sub)"

fun splitOn :: "char \<Rightarrow> string \<Rightarrow> string list" where
  \<comment> \<open>\<open>s.split(sep)\<close> for a separator of one character\<close>
  "splitOn sep [] = [[]]"
| "splitOn sep (c # cs) =
     (if c = sep then [] # splitOn sep cs
      else (case splitOn sep cs of t # ts \<Rightarrow> (c # t) # ts | [] \<Rightarrow> [[c]]))"

function splitWhitespace :: "string \<Rightarrow> string list" where
  \<comment> \<open>\<open>s.split(/\s+/)\<close>: a leading or trailing run of white space leaves an empty piece\<close>
  "splitWhitespace [] = [[]]"
| "splitWhitespace (c # cs) =
     (if isWhitespace c then [] # splitWhitespace (dropWhile isWhitespace cs)
      else (case splitWhitespace cs of t # ts \<Rightarrow> (c # t) # ts | [] \<Rightarrow> [[c]]))"
  by pat_completeness auto
termination
  by (relation "measure length") (auto simp: less_Suc_eq_le length_dropWhile_le)

fun joinWith :: "string \<Rightarrow> string list \<Rightarrow> string" where
  \<comment> \<open>\<open>parts.join(sep)\<close>\<close>
  "joinWith sep [] = []"
| "joinWith sep [p] = p"
| "joinWith sep (p # q # ps) = p @ sep @ joinWith sep (q # ps)"

text \<open>
  \<open>parseInt(s)\<close> with no radix: leading white space, an optional sign, an optional
  \<open>0x\<close> prefix that selects radix 16, then the longest run of digits. The result is a
  JavaScript number: the mathematical value of the digits (\<open>radixValue\<close>) rounded to the
  nearest double, ties to the even significand, and an infinity from \<open>2 ^ 1024\<close> on
  (\<open>toNumber\<close>). Integers up to \<open>2 ^ 53\<close> are not changed by the rounding. The standard
  lets an implementation replace the digits after the twentieth by zeros before it rounds;
  the model rounds the exact value.
\<close>

datatype jsNumber = NaN | Finite int | PosInfinity | NegInfinity

fun bitLength :: "nat \<Rightarrow> nat" where
  "bitLength n = (if n = 0 then 0 else Suc (bitLength (n div 2)))"

declare bitLength.simps [simp del]

definition roundToDouble :: "nat \<Rightarrow> nat" where
  \<comment> \<open>the nearest number with a significand of 53 bits, ties to even\<close>
  "roundToDouble m =
     (let b = bitLength m in
      if b \<le> 53 then m
      else
        (let e = b - 53;
             q = m div 2 ^ e;
             r = m mod 2 ^ e;
             half = 2 ^ (e - 1)
         in (if r > half \<or> (r = half \<and> odd q) then q + 1 else q) * 2 ^ e))"

definition toNumber :: "bool \<Rightarrow> nat \<Rightarrow> jsNumber" where
  "toNumber negative m =
     (let d = roundToDouble m in
      if d \<ge> 2 ^ 1024 then (if negative then NegInfinity else PosInfinity)
      else Finite (if negative then - int d else int d))"

definition digitValue :: "char \<Rightarrow> nat option" where
  "digitValue c =
     (let n = of_char c :: nat in
      if 48 \<le> n \<and> n \<le> 57 then Some (n - 48)
      else if 97 \<le> n \<and> n \<le> 122 then Some (n - 87)
      else if 65 \<le> n \<and> n \<le> 90 then Some (n - 55)
      else None)"

definition isRadixDigit :: "nat \<Rightarrow> char \<Rightarrow> bool" where
  "isRadixDigit radix c = (case digitValue c of Some d \<Rightarrow> d < radix | None \<Rightarrow> False)"

definition radixValue :: "nat \<Rightarrow> string \<Rightarrow> nat" where
  "radixValue radix z = foldl (\<lambda>acc c. acc * radix + the (digitValue c)) 0 z"

definition parseInt :: "string \<Rightarrow> jsNumber" where
  "parseInt input =
     (let s1 = dropWhile isWhitespace input;
          negative = startsWith s1 ''-'';
          s2 = (if startsWith s1 ''-'' \<or> startsWith s1 ''+'' then tl s1 else s1);
          hex = (startsWith s2 ''0x'' \<or> startsWith s2 ''0X'');
          radix = (if hex then 16 else 10);
          s3 = (if hex then drop 2 s2 else s2);
          z = takeWhile (isRadixDigit radix) s3
      in if z = [] then NaN else toNumber negative (radixValue radix z))"

definition truthyNumber :: "jsNumber \<Rightarrow> bool" where
  \<comment> \<open>a number in a condition: NaN and 0 are false\<close>
  "truthyNumber n = (n \<noteq> NaN \<and> n \<noteq> Finite 0)"

record UnityProcess =
  proc_pid :: jsNumber
  proc_projectPath :: string
  proc_commandLine :: string

text \<open>
  \<open>extractProjectPath\<close> matches \<open>/-projectPath\s+"?([^"]+)"?/\<close>. The matcher below is the
  backtracking search of that expression: the leftmost start, the longest run of white
  space first, the optional quote taken first; the capture is the longest run of characters
  other than the quote.
\<close>

definition quoteChar :: char where
  "quoteChar = CHR 0x22"

definition captureAt :: "string \<Rightarrow> string option" where
  \<comment> \<open>\<open>"?([^"]+)"?\<close> at the start of \<open>r\<close>\<close>
  "captureAt r =
     (case r of
        [] \<Rightarrow> None
      | c # cs \<Rightarrow>
          if c = quoteChar
          then (let g = takeWhile (\<lambda>x. x \<noteq> quoteChar) cs in if g \<noteq> [] then Some g else None)
          else Some (takeWhile (\<lambda>x. x \<noteq> quoteChar) r))"

fun whitespaceThenCapture :: "nat \<Rightarrow> string \<Rightarrow> string option" where
  \<comment> \<open>\<open>\s+\<close> taking \<open>k\<close> characters, then fewer\<close>
  "whitespaceThenCapture 0 r = None"
| "whitespaceThenCapture (Suc k) r =
     (case captureAt (drop (Suc k) r) of
        Some g \<Rightarrow> Some g
      | None \<Rightarrow> whitespaceThenCapture k r)"

definition matchAt :: "string \<Rightarrow> string option" where
  "matchAt s =
     (if startsWith s ''-projectPath''
      then (let r = drop 12 s in whitespaceThenCapture (length (takeWhile isWhitespace r)) r)
      else None)"

fun regexSearch :: "string \<Rightarrow> string option" where
  "regexSearch [] = matchAt []"
| "regexSearch (c # cs) =
     (case matchAt (c # cs) of Some g \<Rightarrow> Some g | None \<Rightarrow> regexSearch cs)"

definition extractProjectPath :: "string \<Rightarrow> string option" where
  \<comment> \<open>\<open>match ? match[1].trim() : null\<close>\<close>
  "extractProjectPath commandLine =
     (case regexSearch commandLine of Some g \<Rightarrow> Some (trim g) | None \<Rightarrow> None)"

definition unixLineBody :: "string \<Rightarrow> UnityProcess list \<Rightarrow> UnityProcess list" where
  \<comment> \<open>the body of the loop of \<open>parseUnixProcessOutput\<close>\<close>
  "unixLineBody line processes =
     (let parts = splitWhitespace line in
      if length parts \<ge> 11 then
        (let pid = parseInt (parts ! 1);
             commandLine = joinWith '' '' (drop 10 parts)
         in if truthyNumber pid \<and> includesStr commandLine ''-projectPath'' then
              (case extractProjectPath commandLine of
                 Some projectPath \<Rightarrow>
                   if projectPath \<noteq> [] then
                     processes @ [\<lparr>proc_pid = pid, proc_projectPath = projectPath,
                                    proc_commandLine = commandLine\<rparr>]
                   else processes
               | None \<Rightarrow> processes)
            else processes)
      else processes)"

fun unixLoop :: "string list \<Rightarrow> UnityProcess list \<Rightarrow> UnityProcess list" where
  "unixLoop [] processes = processes"
| "unixLoop (line # lines) processes = unixLoop lines (unixLineBody line processes)"

definition parseUnixProcessOutput :: "string \<Rightarrow> UnityProcess list" where
  "parseUnixProcessOutput output =
     (let lines = filter (\<lambda>line. trim line \<noteq> []) (splitOn (CHR 0x0A) output)
      in unixLoop lines [])"

definition windowsLineBody :: "string \<Rightarrow> UnityProcess list \<Rightarrow> UnityProcess list" where
  \<comment> \<open>the body of the loop of \<open>parseWindowsProcessOutput\<close>\<close>
  "windowsLineBody line processes =
     (let parts = splitOn (CHR '','') line in
      if length parts \<ge> 3 then
        (let commandLine = trim (parts ! 1);
             pid = parseInt (trim (parts ! 2))
         in if commandLine \<noteq> [] \<and> truthyNumber pid \<and> includesStr commandLine ''-projectPath'' then
              (case extractProjectPath commandLine of
                 Some projectPath \<Rightarrow>
                   if projectPath \<noteq> [] then
                     processes @ [\<lparr>proc_pid = pid, proc_projectPath = projectPath,
                                    proc_commandLine = commandLine\<rparr>]
                   else processes
               | None \<Rightarrow> processes)
            else processes)
      else processes)"

fun windowsLoop :: "string list \<Rightarrow> UnityProcess list \<Rightarrow> UnityProcess list" where
  "windowsLoop [] processes = processes"
| "windowsLoop (line # lines) processes = windowsLoop lines (windowsLineBody line processes)"

definition parseWindowsProcessOutput :: "string \<Rightarrow> UnityProcess list" where
  "parseWindowsProcessOutput output =
     (let lines = filter (\<lambda>line. trim line \<noteq> [] \<and> \<not> startsWith line ''Node'')
                    (splitOn (CHR 0x0A) output)
      in windowsLoop lines [])"

text \<open>
  \<open>execSync\<close> either returns the output of the command or throws (the command cannot be
  started, exits with a non-zero status, as \<open>grep\<close> does when nothing matches, or runs
  out of time). \<open>await import('child_process')\<close> either gives the module or rejects; it
  stands before the \<open>try\<close> of the two platform functions, so its failure leaves them and
  is caught in \<open>findUnityProcesses\<close> only. A rejected promise is \<open>Inl\<close>; \<open>tryCatch\<close> is
  the \<open>try { } catch { }\<close> of the source.
\<close>

definition tryCatch :: "string + 'a \<Rightarrow> (string \<Rightarrow> string + 'a) \<Rightarrow> string + 'a" where
  "tryCatch body handler = (case body of Inl e \<Rightarrow> handler e | Inr v \<Rightarrow> Inr v)"

definition findWindowsUnityProcesses ::
  "string + unit \<Rightarrow> string + string \<Rightarrow> string + UnityProcess list" where
  "findWindowsUnityProcesses importChildProcess execSync =
     (case importChildProcess of
        Inl e \<Rightarrow> Inl e
      | Inr childProcess \<Rightarrow>
          tryCatch (case execSync of
                      Inl e \<Rightarrow> Inl e
                    | Inr output \<Rightarrow> Inr (parseWindowsProcessOutput output))
            (\<lambda>error. Inr []))"

definition findUnixUnityProcesses ::
  "string + unit \<Rightarrow> string + string \<Rightarrow> string + UnityProcess list" where
  "findUnixUnityProcesses importChildProcess execSync =
     (case importChildProcess of
        Inl e \<Rightarrow> Inl e
      | Inr childProcess \<Rightarrow>
          tryCatch (case execSync of
                      Inl e \<Rightarrow> Inl e
                    | Inr output \<Rightarrow> Inr (parseUnixProcessOutput output))
            (\<lambda>error. Inr []))"

definition findUnityProcesses ::
  "string \<Rightarrow> string + unit \<Rightarrow> string + string \<Rightarrow> string + UnityProcess list" where
  "findUnityProcesses platform importChildProcess execSync =
     tryCatch (if platform = ''win32'' then findWindowsUnityProcesses importChildProcess execSync
               else findUnixUnityProcesses importChildProcess execSync)
       (\<lambda>error. Inr [])"


subsection \<open>Rows of the listings\<close>

text \<open>
  The properties of the locator speak of the rows it reads; the definitions of this
  subsection describe that input and are not part of the source. A row of \<open>ps aux\<close> is
  a first column followed by further columns, each behind a run of white space
  (\<open>spaced\<close>, \<open>columns\<close>); the columns before the command are USER, PID, %CPU, %MEM, VSZ,
  RSS, TTY, STAT, START and TIME, so the words of the command begin at the eleventh
  (\<open>unixRow\<close>). A row of the CSV listing of \<open>wmic\<close> is \<open>Node,CommandLine,ProcessId\<close>
  (\<open>csvRow\<close>). In a command line \<open>pre @ ''-projectPath'' @ gap @ arg\<close> the flag written
  out is the first one when \<open>-projectPath\<close> begins nowhere inside \<open>pre\<close> (\<open>flagFirst\<close>);
  the argument gives the path either bare, up to the end of the line, or between quotes,
  with white space allowed around the path and anything behind the closing quote
  (\<open>pathArgument\<close>, \<open>quotedPath\<close>).
\<close>

definition isWord :: "string \<Rightarrow> bool" where
  "isWord w = (w \<noteq> [] \<and> list_all (\<lambda>c. \<not> isWhitespace c) w)"

definition isGap :: "string \<Rightarrow> bool" where
  "isGap g = (g \<noteq> [] \<and> list_all isWhitespace g)"

definition spaced :: "string \<Rightarrow> (string \<times> string) list \<Rightarrow> string" where
  "spaced w rest = w @ concat (map (\<lambda>p. fst p @ snd p) rest)"

definition columns :: "(string \<times> string) list \<Rightarrow> bool" where
  "columns rest = list_all (\<lambda>p. isGap (fst p) \<and> isWord (snd p)) rest"

definition flagFirst :: "string \<Rightarrow> bool" where
  "flagFirst pre = (\<not> includesStr (pre @ ''-projectPat'') ''-projectPath'')"

definition isPath :: "string \<Rightarrow> bool" where
  "isPath path =
     (path \<noteq> [] \<and> quoteChar \<notin> set path \<and> \<not> isWhitespace (hd path) \<and> \<not> isWhitespace (last path))"

definition quotedPath :: "string \<Rightarrow> string \<Rightarrow> bool" where
  \<comment> \<open>a quote, the path with white space allowed around it, a quote, anything\<close>
  "quotedPath arg path =
     (case arg of
        [] \<Rightarrow> False
      | c # r \<Rightarrow>
          c = quoteChar \<and>
          (let r1 = dropWhile isWhitespace r;
               r2 = dropWhile isWhitespace (drop (length path) r1)
           in take (length path) r1 = path \<and> take 1 r2 = [quoteChar]))"

definition pathArgument :: "string \<Rightarrow> string \<Rightarrow> bool" where
  "pathArgument arg path = (isPath path \<and> (arg = path \<or> quotedPath arg path))"

definition unixRow :: "string \<Rightarrow> (string \<times> string) list \<Rightarrow> string \<Rightarrow> string \<Rightarrow> bool" where
  "unixRow user rest pidColumn command =
     (isWord user \<and> columns rest \<and> 10 \<le> length rest \<and> snd (rest ! 0) = pidColumn \<and>
      joinWith '' '' (map snd (drop 9 rest)) = command)"

definition csvRow :: "string \<Rightarrow> string \<Rightarrow> string \<Rightarrow> string" where
  "csvRow node command pidColumn = node @ '','' @ command @ '','' @ pidColumn"

definition isDecimalDigit :: "char \<Rightarrow> bool" where
  "isDecimalDigit c = (c \<in> set ''0123456789'')"


section \<open>JavaScript \<open>Map\<close>\<close>

text \<open>A \<open>Map\<close> is an association list in insertion order: \<open>set\<close> on a key that is
  present keeps its place, \<open>delete\<close> removes it.\<close>

fun mapSet :: "'k \<Rightarrow> 'v \<Rightarrow> ('k \<times> 'v) list \<Rightarrow> ('k \<times> 'v) list" where
  "mapSet k v [] = [(k, v)]"
| "mapSet k v (e # es) = (if fst e = k then (k, v) # es else e # mapSet k v es)"

definition mapDelete :: "'k \<Rightarrow> ('k \<times> 'v) list \<Rightarrow> ('k \<times> 'v) list" where
  "mapDelete k m = filter (\<lambda>e. fst e \<noteq> k) m"

definition mapGet :: "('k \<times> 'v) list \<Rightarrow> 'k \<Rightarrow> 'v option" where
  "mapGet m k = map_of m k"

definition mapHas :: "('k \<times> 'v) list \<Rightarrow> 'k \<Rightarrow> bool" where
  "mapHas m k = (map_of m k \<noteq> None)"

section \<open>IPC transport and message correlation (UnityIPC)\<close>

record UnityEditorState =
  st_unityVersion :: string
  st_projectName :: string
  st_isPlaying :: bool
  st_isCompiling :: bool
  st_isPaused :: bool
  st_activeScene :: string
  st_targetPlatform :: string
  st_buildSettingsScenes :: nat

text \<open>
  A parsed message. An absent field is \<open>None\<close>. The payload \<open>data\<close> (\<open>any\<close> in the
  source) is modelled by the editor state the callers cast it to; \<open>parameters\<close> by their
  serialised text; the \<open>timestamp\<close>, which nothing reads, is left out.
\<close>

record UnityIPCMessage =
  msg_id :: "string option"
  msg_command :: "string option"
  msg_type :: "string option"
  msg_data :: "UnityEditorState option"
  msg_parameters :: "string option"
  msg_success :: "bool option"
  msg_error :: "string option"

text \<open>
  The promise returned by the \<open>n\<close>-th call of \<open>sendCommand\<close> is identified by \<open>n\<close>.
  Every invocation of its \<open>resolve\<close> or \<open>reject\<close> is appended to the log \<open>settled\<close>.
\<close>

datatype outcome = Resolved UnityIPCMessage | Rejected string

text \<open>
  The sockets an instance has created with \<open>net.createConnection\<close>, by number. Node emits
  \<open>connect\<close> on a connecting socket, \<open>data\<close> on an open one, \<open>error\<close> on a connecting or
  open one (and then destroys it), and \<open>close\<close> exactly once after a socket was destroyed,
  whether by an error, by the peer ending the stream or by \<open>destroy()\<close>. The four
  listeners that \<open>connect\<close> registers stay on the socket object after \<open>this.socket\<close> is
  reassigned or set to \<open>null\<close>.
\<close>

datatype socketState = SockConnecting | SockOpen | SockDestroyed | SockClosed

datatype ipcEmit =
    EmitConnected
  | EmitDisconnected
  | EmitUnityEvent UnityIPCMessage
  | EmitStateUpdate "UnityEditorState option"
  | EmitPlayModeChanged "UnityEditorState option"
  | EmitSceneOpened "UnityEditorState option"
  | EmitHierarchyChanged "UnityEditorState option"

record UnityIPC =
  ipc_projectPath :: string
  pipeName :: string
  socket :: "nat option"
  isConnected :: bool
  reconnectTimer :: bool
  messageHandlers :: "(string \<times> nat) list"
  sockets :: "socketState list"
  connectTimers :: nat
  responseTimers :: "(string \<times> nat \<times> string) list"
  nextCall :: nat
  settled :: "(nat \<times> outcome) list"
  written :: "(nat \<times> UnityIPCMessage) list"
  emitted :: "ipcEmit list"

text \<open>
  \<open>reconnectTimer\<close> tells whether the field holds a timer; \<open>connectTimers\<close> counts the
  pending five-second timers of \<open>connect\<close>; \<open>responseTimers\<close> holds, for every pending
  ten-second timer of \<open>sendCommand\<close>, the message identifier, the call and the command
  its callback closes over; \<open>written\<close> is what was written, and to which socket.
\<close>

definition newUnityIPC :: "string \<Rightarrow> UnityIPC" where
  "newUnityIPC projectPath =
     \<lparr>ipc_projectPath = projectPath, pipeName = derivePipeName projectPath, socket = None,
      isConnected = False, reconnectTimer = False, messageHandlers = [], sockets = [],
      connectTimers = 0, responseTimers = [], nextCall = 0, settled = [], written = [],
      emitted = []\<rparr>"

definition hexDigit :: "nat \<Rightarrow> char" where
  "hexDigit d = ''0123456789abcdef'' ! d"

definition generateMessageId :: "64 word \<Rightarrow> string" where
  \<comment> \<open>\<open>crypto.randomBytes(8).toString('hex')\<close>, the eight random bytes given as one word\<close>
  "generateMessageId r =
     map (\<lambda>i. hexDigit (unat (take_bit 4 (drop_bit (4 * (15 - i)) r)))) [0..<16]"

definition connect :: "UnityIPC \<Rightarrow> UnityIPC" where
  \<comment> \<open>the synchronous part of \<open>connect()\<close>: a new socket, its listeners, the timeout\<close>
  "connect s =
     s\<lparr>socket := Some (length (sockets s)), sockets := sockets s @ [SockConnecting],
       connectTimers := connectTimers s + 1\<rparr>"

definition destroy :: "nat \<Rightarrow> socketState list \<Rightarrow> socketState list" where
  \<comment> \<open>\<open>socket.destroy()\<close>: no effect on a socket already destroyed\<close>
  "destroy k socks =
     (if k < length socks \<and> (socks ! k = SockConnecting \<or> socks ! k = SockOpen)
      then socks[k := SockDestroyed] else socks)"

definition disconnect :: "UnityIPC \<Rightarrow> UnityIPC" where
  "disconnect s =
     (let s1 = (if reconnectTimer s then s\<lparr>reconnectTimer := False\<rparr> else s);
          s2 = (case socket s1 of
                  Some k \<Rightarrow> s1\<lparr>sockets := destroy k (sockets s1), socket := None\<rparr>
                | None \<Rightarrow> s1)
      in s2\<lparr>isConnected := False\<rparr>)"

definition scheduleReconnect :: "UnityIPC \<Rightarrow> UnityIPC" where
  "scheduleReconnect s = (if reconnectTimer s then s else s\<lparr>reconnectTimer := True\<rparr>)"

definition sendCommand :: "string \<Rightarrow> string \<Rightarrow> 64 word \<Rightarrow> UnityIPC \<Rightarrow> UnityIPC" where
  "sendCommand command parameters randomBytes s =
     (let call = nextCall s; s0 = s\<lparr>nextCall := call + 1\<rparr> in
      if \<not> isConnected s \<or> socket s = None then
        s0\<lparr>settled := settled s0 @ [(call, Rejected ''Not connected to Unity Editor'')]\<rparr>
      else
        (let messageId = generateMessageId randomBytes;
             message = \<lparr>msg_id = Some messageId, msg_command = Some command, msg_type = None,
                        msg_data = None, msg_parameters = Some parameters,
                        msg_success = None, msg_error = None\<rparr>
         in s0\<lparr>messageHandlers := mapSet messageId call (messageHandlers s0),
                written := written s0 @ [(the (socket s), message)],
                responseTimers := responseTimers s0 @ [(messageId, call, command)]\<rparr>))"

definition responseTimeout :: "nat \<Rightarrow> UnityIPC \<Rightarrow> UnityIPC" where
  \<comment> \<open>the callback of the ten-second timer set by call \<open>call\<close>\<close>
  "responseTimeout call s =
     (case find (\<lambda>t. fst (snd t) = call) (responseTimers s) of
        None \<Rightarrow> s
      | Some (messageId, _, command) \<Rightarrow>
          (let s1 = s\<lparr>responseTimers := filter (\<lambda>t. fst (snd t) \<noteq> call) (responseTimers s)\<rparr>
           in if mapHas (messageHandlers s1) messageId then
                s1\<lparr>messageHandlers := mapDelete messageId (messageHandlers s1),
                   settled := settled s1 @ [(call, Rejected (''Command timeout: '' @ command))]\<rparr>
              else s1))"

definition typedEvents :: "string \<Rightarrow> UnityEditorState option \<Rightarrow> ipcEmit list" where
  \<comment> \<open>the \<open>switch\<close> on \<open>message.type\<close>\<close>
  "typedEvents t d =
     (if t = ''state_update'' then [EmitStateUpdate d]
      else if t = ''play_mode_changed'' then [EmitPlayModeChanged d]
      else if t = ''scene_opened'' then [EmitSceneOpened d]
      else if t = ''hierarchy_changed'' then [EmitHierarchyChanged d]
      else [])"

definition handleIncomingMessage :: "UnityIPCMessage option \<Rightarrow> UnityIPC \<Rightarrow> UnityIPC" where
  \<comment> \<open>the argument is the result of \<open>JSON.parse\<close>; \<open>None\<close> when it throws\<close>
  "handleIncomingMessage parsed s =
     (case parsed of
        None \<Rightarrow> s
      | Some message \<Rightarrow>
          if (case msg_id message of
                Some i \<Rightarrow> i \<noteq> [] \<and> mapHas (messageHandlers s) i
              | None \<Rightarrow> False)
          then
            (let i = the (msg_id message);
                 handler = the (mapGet (messageHandlers s) i)
             in s\<lparr>messageHandlers := mapDelete i (messageHandlers s),
                  settled := settled s @ [(handler, Resolved message)]\<rparr>)
          else
            (case msg_type message of
               Some t \<Rightarrow>
                 if t \<noteq> [] then
                   s\<lparr>emitted := emitted s @ [EmitUnityEvent message] @ typedEvents t (msg_data message)\<rparr>
                 else s
             | None \<Rightarrow> s))"

text \<open>The listeners registered on a socket by \<open>connect\<close>, and the timer callbacks.\<close>

definition onConnect :: "UnityIPC \<Rightarrow> UnityIPC" where
  "onConnect s = s\<lparr>isConnected := True, emitted := emitted s @ [EmitConnected]\<rparr>"

definition onError :: "UnityIPC \<Rightarrow> UnityIPC" where
  "onError s = s\<lparr>isConnected := False\<rparr>"

definition onClose :: "UnityIPC \<Rightarrow> UnityIPC" where
  "onClose s =
     scheduleReconnect (s\<lparr>isConnected := False, emitted := emitted s @ [EmitDisconnected]\<rparr>)"

definition connectTimeout :: "UnityIPC \<Rightarrow> UnityIPC" where
  "connectTimeout s =
     (if \<not> isConnected s then
        (case socket s of Some k \<Rightarrow> s\<lparr>sockets := destroy k (sockets s)\<rparr> | None \<Rightarrow> s)
      else s)"

definition reconnectTimeout :: "UnityIPC \<Rightarrow> UnityIPC" where
  "reconnectTimeout s = connect (s\<lparr>reconnectTimer := False\<rparr>)"

text \<open>
  What can happen to one instance: a call by its owner, an event Node delivers on one of
  its sockets, or one of its timers firing. An event that Node cannot deliver in the
  current state leaves the state as it is.
\<close>

datatype ipcInput =
    CallConnect
  | CallDisconnect
  | CallSendCommand string string "64 word"
  | SocketConnect nat
  | SocketData nat "UnityIPCMessage option"
  | SocketError nat
  | SocketEnd nat
  | SocketClose nat
  | ConnectTimeout
  | ResponseTimeout nat
  | ReconnectTimeout

definition socketIs :: "UnityIPC \<Rightarrow> nat \<Rightarrow> socketState \<Rightarrow> bool" where
  "socketIs s k st = (k < length (sockets s) \<and> sockets s ! k = st)"

definition setSocket :: "nat \<Rightarrow> socketState \<Rightarrow> UnityIPC \<Rightarrow> UnityIPC" where
  "setSocket k st s = s\<lparr>sockets := (sockets s)[k := st]\<rparr>"

fun ipcStep :: "ipcInput \<Rightarrow> UnityIPC \<Rightarrow> UnityIPC" where
  "ipcStep CallConnect s = connect s"
| "ipcStep CallDisconnect s = disconnect s"
| "ipcStep (CallSendCommand command parameters r) s = sendCommand command parameters r s"
| "ipcStep (SocketConnect k) s =
     (if socketIs s k SockConnecting then onConnect (setSocket k SockOpen s) else s)"
| "ipcStep (SocketData k parsed) s =
     (if socketIs s k SockOpen then handleIncomingMessage parsed s else s)"
| "ipcStep (SocketError k) s =
     (if socketIs s k SockConnecting \<or> socketIs s k SockOpen
      then onError (setSocket k SockDestroyed s) else s)"
| "ipcStep (SocketEnd k) s =
     (if socketIs s k SockOpen then setSocket k SockDestroyed s else s)"
| "ipcStep (SocketClose k) s =
     (if socketIs s k SockDestroyed then onClose (setSocket k SockClosed s) else s)"
| "ipcStep ConnectTimeout s =
     (if connectTimers s > 0 then connectTimeout (s\<lparr>connectTimers := connectTimers s - 1\<rparr>)
      else s)"
| "ipcStep (ResponseTimeout call) s = responseTimeout call s"
| "ipcStep ReconnectTimeout s = (if reconnectTimer s then reconnectTimeout s else s)"

fun run :: "ipcInput list \<Rightarrow> UnityIPC \<Rightarrow> UnityIPC" where
  "run [] s = s"
| "run (e # es) s = run es (ipcStep e s)"


fun sentIds :: "ipcInput list \<Rightarrow> string list" where
  \<comment> \<open>the identifiers that the calls of \<open>sendCommand\<close> in a trace draw\<close>
  "sentIds [] = []"
| "sentIds (CallSendCommand command parameters r # es) = generateMessageId r # sentIds es"
| "sentIds (e # es) = sentIds es"

text \<open>
  What holds of the handlers, the timers and the log of an instance however it is driven, as
  long as the identifiers drawn so far (\<open>used\<close>) are pairwise different: a registered handler
  belongs to a call that is not settled and whose timer is still pending; no call is settled
  twice; every call made is settled or still has both its handler and its timer.
\<close>

definition correlatorInv :: "string set \<Rightarrow> UnityIPC \<Rightarrow> bool" where
  "correlatorInv used s =
     (distinct (map fst (messageHandlers s))
      \<and> distinct (map fst (responseTimers s))
      \<and> distinct (map (\<lambda>t. fst (snd t)) (responseTimers s))
      \<and> distinct (map fst (settled s))
      \<and> fst ` set (responseTimers s) \<subseteq> used
      \<and> (\<forall>i c. (i, c) \<in> set (messageHandlers s) \<longrightarrow>
            c \<notin> fst ` set (settled s) \<and> (\<exists>cmd. (i, c, cmd) \<in> set (responseTimers s)))
      \<and> (\<forall>t. t \<in> set (responseTimers s) \<longrightarrow> fst (snd t) < nextCall s)
      \<and> (\<forall>c. c \<in> fst ` set (settled s) \<longrightarrow> c < nextCall s)
      \<and> (\<forall>c. c < nextCall s \<longrightarrow>
            c \<in> fst ` set (settled s) \<or>
            (\<exists>i cmd. (i, c, cmd) \<in> set (responseTimers s) \<and> (i, c) \<in> set (messageHandlers s))))"

text \<open>Several calls of \<open>sendCommand\<close> in a row, each given as command, parameters and
  the random bytes it draws, and several messages arriving on a socket one after another.\<close>

definition requestId :: "string \<times> string \<times> 64 word \<Rightarrow> string" where
  "requestId q = generateMessageId (snd (snd q))"

definition sendAll :: "(string \<times> string \<times> 64 word) list \<Rightarrow> ipcInput list" where
  "sendAll reqs = map (\<lambda>q. CallSendCommand (fst q) (fst (snd q)) (snd (snd q))) reqs"

definition arrive :: "nat \<Rightarrow> UnityIPCMessage list \<Rightarrow> ipcInput list" where
  "arrive k rs = map (\<lambda>r. SocketData k (Some r)) rs"

section \<open>Connection registry (UnityConnectionManager)\<close>

datatype connectionStatus = StatusConnected | StatusProjectOnly | StatusDisconnected | StatusError

record UnityConnection =
  conn_projectPath :: string
  conn_unityVersion :: string
  conn_status :: connectionStatus
  conn_lastHeartbeat :: nat
  conn_targetPlatform :: string
  conn_projectName :: string
  conn_editorPID :: "jsNumber option"
  conn_isPlaying :: "bool option"
  conn_isCompiling :: "bool option"

record UnityProjectInfo =
  info_projectPath :: string
  info_projectName :: string
  info_unityVersion :: string
  info_targetPlatform :: string
  info_lastModified :: string

datatype playModeState = Playing | Stopped | Paused

record UnityStatus =
  status_connections :: "UnityConnection list"
  status_activeProject :: "string option"
  status_isCompiling :: bool
  status_playModeState :: playModeState

datatype managerEmit =
    ProjectConnected nat
  | ProjectDisconnected nat
  | ConnectionError nat
  | UnityStateUpdate string
  | PlayModeChanged string
  | SceneOpened string
  | ActiveProjectChanged "string option" string

text \<open>
  Connection objects and \<open>UnityIPC\<close> instances are shared by reference (the listeners set
  up on an instance close over the connection object), so both live in a store and the maps
  hold references. \<open>ipcObjects\<close> holds every instance ever constructed, whether a map still
  refers to it or not; \<open>ipcListeners\<close> records, for an instance, the connection object
  that \<open>setupUnityIPCHandlers\<close> registered listeners for.
\<close>

record UnityConnectionManager =
  objects :: "UnityConnection list"
  connections :: "(string \<times> nat) list"
  ipcObjects :: "UnityIPC list"
  ipcListeners :: "(nat \<times> nat) list"
  unityIPCConnections :: "(string \<times> nat) list"
  activeConnection :: "string option"
  mgr_emitted :: "managerEmit list"

definition newUnityConnectionManager :: UnityConnectionManager where
  "newUnityConnectionManager =
     \<lparr>objects = [], connections = [], ipcObjects = [], ipcListeners = [],
      unityIPCConnections = [], activeConnection = None, mgr_emitted = []\<rparr>"

text \<open>
  What the surroundings answer while \<open>connectToProject\<close> awaits: \<open>getProjectInfo\<close> (file
  system; \<open>Inl\<close> when it throws), the connection attempt, the process listing behind
  \<open>getUnityPID\<close>, the reply to \<open>get_state\<close> (\<open>None\<close> when the request fails or carries no
  data) and the clock. The operation is taken as one step: nothing else runs between its
  awaits. The \<open>get_state\<close> exchange enters with its outcome only and is not recorded on the
  instance. Listeners of the events the registry emits are outside the model and are taken
  not to throw.
\<close>

datatype connectOutcome = PeerAccepts | PeerRefuses | PeerSilent

record connectEnv =
  env_projectInfo :: "string + UnityProjectInfo"
  env_connect :: connectOutcome
  env_platform :: string
  env_importChildProcess :: "string + unit"
  env_execSync :: "string + string"
  env_unityState :: "UnityEditorState option"
  env_now :: nat

definition awaitConnect :: "connectOutcome \<Rightarrow> UnityIPC \<Rightarrow> UnityIPC" where
  \<comment> \<open>\<open>await unityIPC.connect()\<close> on a new instance, whose socket is number 0\<close>
  "awaitConnect outcome s =
     (case outcome of
        PeerAccepts \<Rightarrow> ipcStep (SocketConnect 0) (connect s)
      | PeerRefuses \<Rightarrow> ipcStep (SocketError 0) (connect s)
      | PeerSilent \<Rightarrow> ipcStep ConnectTimeout (connect s))"

definition getUnityPID ::
  "string \<Rightarrow> string + unit \<Rightarrow> string + string \<Rightarrow> string \<Rightarrow> jsNumber option" where
  "getUnityPID platform importChildProcess execSync projectPath =
     (case findUnityProcesses platform importChildProcess execSync of
        Inl error \<Rightarrow> None
      | Inr processes \<Rightarrow>
          (case find (\<lambda>p. proc_projectPath p = projectPath) processes of
             Some process \<Rightarrow> Some (proc_pid process)
           | None \<Rightarrow> None))"

definition connectToProject ::
  "string \<Rightarrow> connectEnv \<Rightarrow> UnityConnectionManager \<Rightarrow> (string + nat) \<times> UnityConnectionManager" where
  "connectToProject projectPath env m =
     (case env_projectInfo env of
        Inl error \<Rightarrow> (Inl error, m)
      | Inr projectInfo \<Rightarrow>
          if (case mapGet (connections m) projectPath of
                Some existing \<Rightarrow> conn_status (objects m ! existing) = StatusConnected
              | None \<Rightarrow> False)
          then (Inr (the (mapGet (connections m) projectPath)), m)
          else
            (let unityIPC = length (ipcObjects m);
                 ipc = awaitConnect (env_connect env) (newUnityIPC projectPath);
                 isUnityRunning = (env_connect env = PeerAccepts);
                 editorPID = (if isUnityRunning
                              then getUnityPID (env_platform env) (env_importChildProcess env)
                                     (env_execSync env) projectPath
                              else None);
                 connection = length (objects m);
                 c0 = \<lparr>conn_projectPath = projectPath,
                       conn_unityVersion = info_unityVersion projectInfo,
                       conn_status = (if isUnityRunning then StatusConnected else StatusProjectOnly),
                       conn_lastHeartbeat = env_now env,
                       conn_targetPlatform = info_targetPlatform projectInfo,
                       conn_projectName = info_projectName projectInfo,
                       conn_editorPID = editorPID,
                       conn_isPlaying = None, conn_isCompiling = None\<rparr>;
                 c1 = (if isUnityRunning then
                         (case env_unityState env of
                            Some unityState \<Rightarrow>
                              c0\<lparr>conn_isPlaying := Some (st_isPlaying unityState),
                                 conn_isCompiling := Some (st_isCompiling unityState)\<rparr>
                          | None \<Rightarrow> c0)
                       else c0);
                 m1 = m\<lparr>ipcObjects := ipcObjects m @ [ipc], objects := objects m @ [c1]\<rparr>;
                 m2 = (if isUnityRunning then
                         m1\<lparr>ipcListeners := ipcListeners m1 @ [(unityIPC, connection)],
                            unityIPCConnections :=
                              mapSet projectPath unityIPC (unityIPCConnections m1)\<rparr>
                       else m1);
                 m3 = m2\<lparr>connections := mapSet projectPath connection (connections m2),
                          activeConnection := Some projectPath,
                          mgr_emitted := mgr_emitted m2 @ [ProjectConnected connection]\<rparr>
             in (Inr connection, m3)))"

definition disconnectFromProject ::
  "string option \<Rightarrow> UnityConnectionManager \<Rightarrow> (string + unit) \<times> UnityConnectionManager" where
  "disconnectFromProject projectPath m =
     (let targetPath = (case projectPath of
                          Some p \<Rightarrow> if p \<noteq> [] then Some p else activeConnection m
                        | None \<Rightarrow> activeConnection m)
      in if targetPath = None \<or> targetPath = Some [] then
           (Inl ''No project specified and no active connection'', m)
         else
           (let target = the targetPath in
            case mapGet (connections m) target of
              None \<Rightarrow> (Inl (''No connection found for project: '' @ target), m)
            | Some connection \<Rightarrow>
                (let m1 = (case mapGet (unityIPCConnections m) target of
                             Some unityIPC \<Rightarrow>
                               m\<lparr>ipcObjects :=
                                    (ipcObjects m)[unityIPC := disconnect (ipcObjects m ! unityIPC)],
                                  unityIPCConnections := mapDelete target (unityIPCConnections m)\<rparr>
                           | None \<Rightarrow> m);
                     m2 = m1\<lparr>objects :=
                               (objects m1)[connection :=
                                  (objects m1 ! connection)\<lparr>conn_status := StatusDisconnected\<rparr>]\<rparr>;
                     m3 = (if activeConnection m2 = Some target
                           then m2\<lparr>activeConnection := None\<rparr> else m2);
                     m4 = m3\<lparr>connections := mapDelete target (connections m3),
                              mgr_emitted := mgr_emitted m3 @ [ProjectDisconnected connection]\<rparr>
                 in (Inr (), m4))))"

fun onIpcEmit :: "nat \<Rightarrow> nat \<Rightarrow> ipcEmit \<Rightarrow> UnityConnectionManager \<Rightarrow> UnityConnectionManager" where
  \<comment> \<open>the listeners of \<open>setupUnityIPCHandlers\<close> for the connection object \<open>c\<close>\<close>
  "onIpcEmit c now (EmitStateUpdate (Some state)) m =
     m\<lparr>objects := (objects m)[c := (objects m ! c)
            \<lparr>conn_isPlaying := Some (st_isPlaying state),
             conn_isCompiling := Some (st_isCompiling state),
             conn_lastHeartbeat := now\<rparr>],
       mgr_emitted := mgr_emitted m @ [UnityStateUpdate (conn_projectPath (objects m ! c))]\<rparr>"
| "onIpcEmit c now (EmitPlayModeChanged (Some d)) m =
     m\<lparr>objects := (objects m)[c := (objects m ! c)\<lparr>conn_isPlaying := Some (st_isPlaying d)\<rparr>],
       mgr_emitted := mgr_emitted m @ [PlayModeChanged (conn_projectPath (objects m ! c))]\<rparr>"
| "onIpcEmit c now (EmitSceneOpened d) m =
     m\<lparr>mgr_emitted := mgr_emitted m @ [SceneOpened (conn_projectPath (objects m ! c))]\<rparr>"
| "onIpcEmit c now EmitDisconnected m =
     m\<lparr>objects := (objects m)[c := (objects m ! c)
            \<lparr>conn_status := StatusProjectOnly, conn_editorPID := None\<rparr>]\<rparr>"
| "onIpcEmit c now _ m = m"

definition deliver ::
  "nat \<Rightarrow> ipcInput \<Rightarrow> nat \<Rightarrow> UnityConnectionManager \<Rightarrow> UnityConnectionManager" where
  \<comment> \<open>an event or timer of the instance \<open>i\<close>, then the registry's listeners for what it emits\<close>
  "deliver i e now m =
     (if i < length (ipcObjects m) then
        (let ipc = ipcObjects m ! i;
             ipc' = ipcStep e ipc;
             fresh = drop (length (emitted ipc)) (emitted ipc');
             listeners = map snd (filter (\<lambda>l. fst l = i) (ipcListeners m));
             m1 = m\<lparr>ipcObjects := (ipcObjects m)[i := ipc']\<rparr>
         in foldl (\<lambda>m' ev. foldl (\<lambda>m'' c. onIpcEmit c now ev m'') m' listeners) m1 fresh)
      else m)"

definition getActiveConnection :: "UnityConnectionManager \<Rightarrow> UnityConnection option" where
  "getActiveConnection m =
     (case activeConnection m of
        None \<Rightarrow> None
      | Some a \<Rightarrow>
          if a = [] then None
          else (case mapGet (connections m) a of Some c \<Rightarrow> Some (objects m ! c) | None \<Rightarrow> None))"

definition getStatus :: "UnityConnectionManager \<Rightarrow> UnityStatus" where
  "getStatus m =
     (let conns = map (\<lambda>e. objects m ! snd e) (connections m);
          activeConn = (case activeConnection m of
                          None \<Rightarrow> None
                        | Some a \<Rightarrow> if a \<noteq> [] then mapGet (connections m) a else None);
          isCompiling = (case activeConn of
                           Some c \<Rightarrow> (conn_isCompiling (objects m ! c) = Some True)
                         | None \<Rightarrow> False);
          playMode = (case activeConn of
                        Some c \<Rightarrow> if conn_isPlaying (objects m ! c) = Some True
                                  then Playing else Stopped
                      | None \<Rightarrow> Stopped)
      in \<lparr>status_connections = conns, status_activeProject = activeConnection m,
          status_isCompiling = isCompiling, status_playModeState = playMode\<rparr>)"

definition switchActiveProject ::
  "string \<Rightarrow> UnityConnectionManager \<Rightarrow> (string + unit) \<times> UnityConnectionManager" where
  "switchActiveProject projectPath m =
     (case mapGet (connections m) projectPath of
        None \<Rightarrow> (Inl (''No connection found for project: '' @ projectPath), m)
      | Some connection \<Rightarrow>
          if conn_status (objects m ! connection) \<noteq> StatusConnected
          then (Inl (''Project is not connected: '' @ projectPath), m)
          else (Inr (),
                m\<lparr>activeConnection := Some projectPath,
                  mgr_emitted := mgr_emitted m @
                    [ActiveProjectChanged
                       (case activeConnection m of
                          Some a \<Rightarrow> if a \<noteq> [] then Some a else None | None \<Rightarrow> None)
                       projectPath]\<rparr>))"

definition isConnectionHealthy :: "(string \<Rightarrow> bool) \<Rightarrow> UnityConnection \<Rightarrow> bool" where
  \<comment> \<open>\<open>access p\<close> tells whether \<open>fs.access(p)\<close> succeeds\<close>
  "isConnectionHealthy access connection =
     (if conn_projectPath connection = [] \<or> conn_status connection \<noteq> StatusConnected then False
      else access (conn_projectPath connection))"

definition healthBody ::
  "nat \<Rightarrow> (string \<Rightarrow> bool) \<Rightarrow> nat \<Rightarrow> UnityConnectionManager \<Rightarrow> UnityConnectionManager" where
  \<comment> \<open>the body of the loop of \<open>checkConnectionHealth\<close> for one connection object\<close>
  "healthBody connection access now m =
     (if \<not> isConnectionHealthy access (objects m ! connection) then
        m\<lparr>objects := (objects m)[connection :=
              (objects m ! connection)\<lparr>conn_status := StatusError\<rparr>],
          mgr_emitted := mgr_emitted m @ [ConnectionError connection]\<rparr>
      else
        m\<lparr>objects := (objects m)[connection :=
              (objects m ! connection)\<lparr>conn_lastHeartbeat := now\<rparr>]\<rparr>)"

fun healthLoop ::
  "(string \<times> nat) list \<Rightarrow> (string \<Rightarrow> bool) \<Rightarrow> nat \<Rightarrow> UnityConnectionManager \<Rightarrow>
   UnityConnectionManager" where
  "healthLoop [] access now m = m"
| "healthLoop (entry # entries) access now m =
     healthLoop entries access now (healthBody (snd entry) access now m)"

definition checkConnectionHealth ::
  "(string \<Rightarrow> bool) \<Rightarrow> nat \<Rightarrow> UnityConnectionManager \<Rightarrow> UnityConnectionManager" where
  "checkConnectionHealth access now m = healthLoop (connections m) access now m"

definition sweptEntry :: "(string \<Rightarrow> bool) \<Rightarrow> nat \<Rightarrow> UnityConnection \<Rightarrow> UnityConnection" where
  \<comment> \<open>what one pass of the loop makes of a connection object\<close>
  "sweptEntry access now c =
     (if conn_status c = StatusConnected \<and> conn_projectPath c \<noteq> [] \<and> access (conn_projectPath c)
      then c\<lparr>conn_lastHeartbeat := now\<rparr> else c\<lparr>conn_status := StatusError\<rparr>)"

definition liveSockets :: "UnityIPC \<Rightarrow> nat" where
  "liveSockets ipc = length (filter (\<lambda>st. st = SockOpen) (sockets ipc))"

definition liveTransports :: "UnityConnectionManager \<Rightarrow> string \<Rightarrow> nat" where
  \<comment> \<open>the open sockets of all instances constructed for a target\<close>
  "liveTransports m target =
     sum_list (map liveSockets (filter (\<lambda>ipc. ipc_projectPath ipc = target) (ipcObjects m)))"


section \<open>Example surroundings\<close>

text \<open>Concrete answers of the surroundings, used where a property is run on an example.\<close>

definition exampleInfo :: "string \<Rightarrow> UnityProjectInfo" where
  "exampleInfo projectPath =
     \<lparr>info_projectPath = projectPath, info_projectName = ''Game'',
      info_unityVersion = ''2022.3.10f1'', info_targetPlatform = ''Standalone'',
      info_lastModified = ''2025-09-21T04:16:00.000Z''\<rparr>"

definition exampleState :: "bool \<Rightarrow> bool \<Rightarrow> UnityEditorState" where
  "exampleState playing paused =
     \<lparr>st_unityVersion = ''2022.3.10f1'', st_projectName = ''Game'', st_isPlaying = playing,
      st_isCompiling = False, st_isPaused = paused, st_activeScene = ''Main'',
      st_targetPlatform = ''Standalone'', st_buildSettingsScenes = 1\<rparr>"

definition exampleEnv :: "string \<Rightarrow> connectOutcome \<Rightarrow> UnityEditorState option \<Rightarrow> connectEnv" where
  "exampleEnv projectPath outcome unityState =
     \<lparr>env_projectInfo = Inr (exampleInfo projectPath), env_connect = outcome,
      env_platform = ''linux'', env_importChildProcess = Inr (),
      env_execSync = Inl ''Command failed'',
      env_unityState = unityState, env_now = 0\<rparr>"

definition exampleResponse :: "64 word \<Rightarrow> UnityIPCMessage" where
  \<comment> \<open>a successful response to the request whose identifier came from \<open>r\<close>\<close>
  "exampleResponse r =
     \<lparr>msg_id = Some (generateMessageId r), msg_command = None, msg_type = None,
      msg_data = None, msg_parameters = None, msg_success = Some True, msg_error = None\<rparr>"

definition exampleTwoProjects :: UnityConnectionManager where
  \<comment> \<open>\<open>/proj/A\<close> and then \<open>/proj/B\<close> connected, both editors running\<close>
  "exampleTwoProjects =
     snd (connectToProject ''/proj/B'' (exampleEnv ''/proj/B'' PeerAccepts None)
       (snd (connectToProject ''/proj/A'' (exampleEnv ''/proj/A'' PeerAccepts None)
          newUnityConnectionManager)))"

definition exampleProjectOnly :: UnityConnectionManager where
  \<comment> \<open>\<open>/proj/A\<close> connected while no editor is running\<close>
  "exampleProjectOnly =
     snd (connectToProject ''/proj/A'' (exampleEnv ''/proj/A'' PeerRefuses None)
       newUnityConnectionManager)"

definition exampleTrace :: "ipcInput list" where
  \<comment> \<open>two requests; the second is answered twice, the first never\<close>
  "exampleTrace =
     [CallConnect, SocketConnect 0,
      CallSendCommand ''ping'' ''{}'' 1, CallSendCommand ''get_state'' ''{}'' 2,
      SocketData 0 (Some (exampleResponse 2)), SocketData 0 (Some (exampleResponse 2)),
      ResponseTimeout 1, ResponseTimeout 0]"

definition exampleConnected :: UnityIPC where
  "exampleConnected = run [CallConnect, SocketConnect 0] (newUnityIPC ''/proj/A'')"

definition exampleRequests :: "(string \<times> string \<times> 64 word) list" where
  "exampleRequests = [(''ping'', ''{}'', 1), (''get_state'', ''{}'', 2)]"

definition exampleResponses :: "UnityIPCMessage list" where
  \<comment> \<open>the answers to \<open>exampleRequests\<close>, in the opposite order\<close>
  "exampleResponses = [exampleResponse 2, exampleResponse 1]"

definition examplePending :: UnityIPC where
  \<comment> \<open>a request is pending when the peer ends the stream\<close>
  "examplePending =
     run [CallConnect, SocketConnect 0, CallSendCommand ''ping'' ''{}'' 1, SocketEnd 0]
       (newUnityIPC ''/proj/A'')"

definition exampleDisconnected :: UnityIPC where
  \<comment> \<open>the owner calls \<open>disconnect()\<close> on a connected instance\<close>
  "exampleDisconnected = run [CallConnect, SocketConnect 0, CallDisconnect] (newUnityIPC ''/proj/A'')"

definition exampleReconnect :: UnityConnectionManager where
  \<comment> \<open>\<open>/proj/A\<close> connected, disconnected and connected again\<close>
  "exampleReconnect =
     snd (connectToProject ''/proj/A'' (exampleEnv ''/proj/A'' PeerAccepts None)
       (snd (disconnectFromProject (Some ''/proj/A'')
          (snd (connectToProject ''/proj/A'' (exampleEnv ''/proj/A'' PeerAccepts None)
             newUnityConnectionManager)))))"

definition exampleAfterError :: UnityConnectionManager where
  \<comment> \<open>\<open>/proj/A\<close> connected, found unreachable by one sweep, and connected again\<close>
  "exampleAfterError =
     snd (connectToProject ''/proj/A'' (exampleEnv ''/proj/A'' PeerAccepts None)
       (checkConnectionHealth (\<lambda>p. False) 30
          (snd (connectToProject ''/proj/A'' (exampleEnv ''/proj/A'' PeerAccepts None)
             newUnityConnectionManager))))"

text \<open>Two listings: three rows of \<open>ps aux\<close> (a Unity editor, a process without the flag,
  a short row), and a CSV listing with its header row, an editor and a process without the
  flag; the lines of the second end with carriage return and line feed.\<close>

definition carriageReturn :: char where
  "carriageReturn = CHR 0x0D"

definition lineFeed :: char where
  "lineFeed = CHR 0x0A"

definition exampleUnixListing :: string where
  "exampleUnixListing =
     ''u  1234 0.0 0.1 1 2 ? Sl 10:00 0:01 /opt/Unity/Editor/Unity -projectPath /proj/A'' @ [lineFeed] @
     ''u 77 0.0 0.1 1 2 ? Sl 10:00 0:01 unity-hub --hidden'' @ [lineFeed] @
     ''truncated -projectPath'' @ [lineFeed]"

definition exampleWindowsListing :: string where
  "exampleWindowsListing =
     ''Node,CommandLine,ProcessId'' @ [carriageReturn, lineFeed] @
     ''HOST,C:/Unity/Unity.exe -projectPath '' @ [quoteChar] @ ''C:/My Projects/B'' @ [quoteChar] @
       '' -batchmode,4321'' @ [carriageReturn, lineFeed] @
     ''HOST,C:/Unity/Unity.exe -createProject,99'' @ [carriageReturn, lineFeed]"


section \<open>Properties\<close>

subsection \<open>Rendezvous naming\<close>

lemma toInt32_cong: "x mod 2 ^ 32 = y mod 2 ^ 32 \<Longrightarrow> toInt32 x = toInt32 y"
  unfolding toInt32_def
  by (metis mod_add_cong)

lemma toInt32_mod: "toInt32 x mod 2 ^ 32 = x mod 2 ^ 32"
  unfolding toInt32_def by (simp add: mod_simps)

lemma toInt32_range: "- (2 ^ 31) \<le> toInt32 x \<and> toInt32 x < 2 ^ 31"
  unfolding toInt32_def by simp

lemma hashStep_eq: "hashStep h c = toInt32 (31 * h + int c)"
proof -
  have a: "toInt32 (toInt32 h * 2 ^ 5) mod 2 ^ 32 = (h * 2 ^ 5) mod 2 ^ 32"
    unfolding toInt32_mod [of "toInt32 h * 2 ^ 5"]
    by (rule mod_mult_cong [OF toInt32_mod refl])
  have "(toInt32 (toInt32 h * 2 ^ 5) - h + int c) mod 2 ^ 32 = (h * 2 ^ 5 - h + int c) mod 2 ^ 32"
    by (intro mod_add_cong mod_diff_cong a refl)
  also have "h * 2 ^ 5 - h + int c = 31 * h + int c"
    by simp
  finally show ?thesis
    unfolding hashStep_def shiftLeft5_def Let_def by (rule toInt32_cong)
qed

lemma hashLoop_eq: "hashLoop cs h = hash32 cs h"
  by (induction cs arbitrary: h) (simp_all add: hashStep_eq)

lemma hashLoop_range:
  "- (2 ^ 31) \<le> h \<and> h < 2 ^ 31 \<Longrightarrow> - (2 ^ 31) \<le> hashLoop cs h \<and> hashLoop cs h < 2 ^ 31"
proof (induction cs arbitrary: h)
  case Nil
  then show ?case by simp
next
  case (Cons c cs)
  show ?case
    unfolding hashLoop.simps by (rule Cons.IH) (simp only: hashStep_eq toInt32_range)
qed

lemma hashCode_projA: "hashCode (charCodes ''/proj/A'') = 2078156542"
  by (simp add: hashCode_def charCodes_def hashStep_def shiftLeft5_def toInt32_def)

lemma hashCode_projB: "hashCode (charCodes ''/proj/B'') = 2078156543"
  by (simp add: hashCode_def charCodes_def hashStep_def shiftLeft5_def toInt32_def)

lemma derivePipeName_projA: "derivePipeName ''/proj/A'' = ''unity-mcp-2078156542''"
  by (simp add: derivePipeName_def hashCode_projA decimal.simps digitChar_def)

lemma derivePipeName_projB: "derivePipeName ''/proj/B'' = ''unity-mcp-2078156543''"
  by (simp add: derivePipeName_def hashCode_projB decimal.simps digitChar_def)

text \<open>Distinct identifiers can share a name: the hash is not injective.\<close>

lemma derivePipeName_collision: "derivePipeName ''Aa'' = derivePipeName ''BB''"
  by (simp add: derivePipeName_def hashCode_def charCodes_def hashStep_def shiftLeft5_def toInt32_def)

text \<open>
  Claim C7. The endpoint name is a function of the target identifier alone: the fixed prefix
  followed by the decimal digits of the absolute value of a signed 32-bit hash of the
  identifier (the loop of \<open>hashCode\<close> computes \<open>h \<mapsto> 31 * h + c\<close> wrapped to 32 bits), so
  the same identifier gives the same rendezvous path; the path is the named-pipe path on
  \<open>win32\<close> and \<open>/tmp/<name>\<close> elsewhere; and the names of \<open>/proj/A\<close> and \<open>/proj/B\<close> differ.
\<close>

theorem endpoint_name_derivation:
  "derivePipeName target = ''unity-mcp-'' @ decimal (nat \<bar>hash32 (charCodes target) 0\<bar>)
   \<and> hashCode (charCodes target) = hash32 (charCodes target) 0
   \<and> - (2 ^ 31) \<le> hashCode (charCodes target) \<and> hashCode (charCodes target) < 2 ^ 31
   \<and> (target' = target \<longrightarrow>
        pipePath platform (derivePipeName target') = pipePath platform (derivePipeName target))
   \<and> pipePath ''win32'' (derivePipeName target) =
        [backslash, backslash, CHR ''.'', backslash] @ ''pipe'' @ [backslash] @ derivePipeName target
   \<and> (platform \<noteq> ''win32'' \<longrightarrow>
        pipePath platform (derivePipeName target) = ''/tmp/'' @ derivePipeName target)
   \<and> derivePipeName ''/proj/A'' \<noteq> derivePipeName ''/proj/B''"
proof -
  have eq: "hashCode (charCodes target) = hash32 (charCodes target) 0"
    by (simp add: hashCode_def hashLoop_eq)
  have range: "- (2 ^ 31) \<le> hashCode (charCodes target) \<and> hashCode (charCodes target) < 2 ^ 31"
    unfolding hashCode_def by (rule hashLoop_range) simp
  have name: "derivePipeName target = ''unity-mcp-'' @ decimal (nat \<bar>hash32 (charCodes target) 0\<bar>)"
    by (simp add: derivePipeName_def eq)
  have differ: "derivePipeName ''/proj/A'' \<noteq> derivePipeName ''/proj/B''"
    by (simp add: derivePipeName_projA derivePipeName_projB)
  show ?thesis
    using eq range name differ by (simp add: pipePath_def)
qed

theorem endpoint_name_derivation_witness:
  "derivePipeName ''/proj/A'' = ''unity-mcp-2078156542''
   \<and> ''linux'' \<noteq> ''win32''
   \<and> pipePath ''linux'' (derivePipeName ''/proj/A'') = ''/tmp/unity-mcp-2078156542''
   \<and> pipePath ''win32'' (derivePipeName ''/proj/A'') =
        [backslash, backslash, CHR ''.'', backslash] @ ''pipe'' @ [backslash] @ ''unity-mcp-2078156542''"
proof -
  note t = endpoint_name_derivation [of "''/proj/A''" "''/proj/A''" "''linux''"]
  have p: "''linux'' \<noteq> ''win32''"
    by simp
  from t p have a: "pipePath ''linux'' (derivePipeName ''/proj/A'') = ''/tmp/'' @ derivePipeName ''/proj/A''"
    by blast
  from t have b: "pipePath ''win32'' (derivePipeName ''/proj/A'') =
        [backslash, backslash, CHR ''.'', backslash] @ ''pipe'' @ [backslash] @ derivePipeName ''/proj/A''"
    by blast
  show ?thesis
    using a b p unfolding derivePipeName_projA by simp
qed

subsection \<open>Status query\<close>

text \<open>
  Claim C10. \<open>getStatus\<close> reports \<open>Playing\<close> exactly when there is an active connection
  (as \<open>getActiveConnection\<close> finds it) whose cached \<open>isPlaying\<close> is true, and \<open>Stopped\<close> in
  every other case; it never reports \<open>Paused\<close>.
\<close>

theorem getStatus_playModeState:
  "status_playModeState (getStatus m) =
     (if (\<exists>c. getActiveConnection m = Some c \<and> conn_isPlaying c = Some True)
      then Playing else Stopped)
   \<and> status_playModeState (getStatus m) \<noteq> Paused"
  by (simp add: getStatus_def getActiveConnection_def Let_def split: option.splits)


subsection \<open>Process locator\<close>

lemma unixLineBody_append: "unixLineBody line processes = processes @ unixLineBody line []"
  by (simp add: unixLineBody_def Let_def split: option.splits)

lemma windowsLineBody_append: "windowsLineBody line processes = processes @ windowsLineBody line []"
  by (simp add: windowsLineBody_def Let_def split: option.splits)

lemma unixLoop_concat:
  "unixLoop lines processes = processes @ concat (map (\<lambda>line. unixLineBody line []) lines)"
proof (induction lines arbitrary: processes)
  case Nil
  show ?case by simp
next
  case (Cons line lines)
  have "unixLoop (line # lines) processes = unixLoop lines (processes @ unixLineBody line [])"
    using unixLineBody_append [of line processes] by simp
  then show ?case
    by (simp add: Cons.IH)
qed

lemma windowsLoop_concat:
  "windowsLoop lines processes = processes @ concat (map (\<lambda>line. windowsLineBody line []) lines)"
proof (induction lines arbitrary: processes)
  case Nil
  show ?case by simp
next
  case (Cons line lines)
  have "windowsLoop (line # lines) processes = windowsLoop lines (processes @ windowsLineBody line [])"
    using windowsLineBody_append [of line processes] by simp
  then show ?case
    by (simp add: Cons.IH)
qed



lemma splitWhitespace_not_Nil: "splitWhitespace s \<noteq> []"
  by (induction s rule: splitWhitespace.induct) (auto split: list.splits)

lemma splitWhitespace_word:
  "list_all (\<lambda>c. \<not> isWhitespace c) w \<Longrightarrow>
   splitWhitespace (w @ s) = (w @ hd (splitWhitespace s)) # tl (splitWhitespace s)"
proof (induction w)
  case Nil
  show ?case
    using splitWhitespace_not_Nil [of s] by simp
next
  case (Cons c w)
  then have c: "\<not> isWhitespace c" and w: "list_all (\<lambda>c. \<not> isWhitespace c) w"
    by simp_all
  show ?case
    using c Cons.IH [OF w] by simp
qed

lemma dropWhile_gap:
  "list_all P g \<Longrightarrow> \<not> P c \<Longrightarrow> dropWhile P (g @ c # cs) = c # cs"
  by (induction g) simp_all

lemma takeWhile_gap:
  "list_all P g \<Longrightarrow> \<not> P c \<Longrightarrow> takeWhile P (g @ c # cs) = g"
  by (induction g) simp_all

lemma splitWhitespace_gap:
  assumes "isGap g" and "isWord w"
  shows "splitWhitespace (g @ w @ s) = [] # splitWhitespace (w @ s)"
proof -
  from assms(1) obtain c g' where g: "g = c # g'" and c: "isWhitespace c"
    and g': "list_all isWhitespace g'"
    by (cases g) (auto simp: isGap_def)
  from assms(2) obtain d w' where w: "w = d # w'" and d: "\<not> isWhitespace d"
    by (cases w) (auto simp: isWord_def)
  have "dropWhile isWhitespace (g' @ d # (w' @ s)) = d # (w' @ s)"
    using g' d by (rule dropWhile_gap)
  then show ?thesis
    using c by (simp add: g w)
qed

lemma splitWhitespace_spaced:
  "list_all (\<lambda>c. \<not> isWhitespace c) w \<Longrightarrow> columns rest \<Longrightarrow>
   splitWhitespace (spaced w rest) = w # map snd rest"
proof (induction rest arbitrary: w)
  case Nil
  show ?case
    using splitWhitespace_word [OF Nil(1), of "[]"] by (simp add: spaced_def)
next
  case (Cons p rest)
  obtain g v where p: "p = (g, v)"
    by (cases p)
  from Cons.prems(2) have g: "isGap g" and v: "isWord v" and rest: "columns rest"
    by (simp_all add: columns_def p)
  from v have v': "list_all (\<lambda>c. \<not> isWhitespace c) v"
    by (simp add: isWord_def)
  have "splitWhitespace (g @ v @ concat (map (\<lambda>p. fst p @ snd p) rest)) =
      [] # splitWhitespace (spaced v rest)"
    using splitWhitespace_gap [OF g v] by (simp add: spaced_def)
  then have tail: "splitWhitespace (g @ v @ concat (map (\<lambda>p. fst p @ snd p) rest)) =
      [] # v # map snd rest"
    using Cons.IH [OF v' rest] by simp
  have "spaced w (p # rest) = w @ (g @ v @ concat (map (\<lambda>p. fst p @ snd p) rest))"
    by (simp add: spaced_def p)
  then show ?case
    using splitWhitespace_word [OF Cons.prems(1), of "g @ v @ concat (map (\<lambda>p. fst p @ snd p) rest)"]
      tail by (simp add: p)
qed

lemma splitOn_not_Nil: "splitOn c s \<noteq> []"
  by (induction s) (auto split: list.splits)

lemma splitOn_no_separator: "c \<notin> set a \<Longrightarrow> splitOn c a = [a]"
  by (induction a) auto

lemma splitOn_append: "c \<notin> set a \<Longrightarrow> splitOn c (a @ c # b) = a # splitOn c b"
  by (induction a) auto

lemma trim_trailing:
  assumes "s \<noteq> []" and "\<not> isWhitespace (hd s)" and "\<not> isWhitespace (last s)"
    and "list_all isWhitespace t"
  shows "trim (s @ t) = s"
proof -
  from assms(1,2) have front: "dropWhile isWhitespace (s @ t) = s @ t"
    by (cases s) simp_all
  have "rev s \<noteq> []" and "\<not> isWhitespace (hd (rev s))"
    using assms(1,3) by (simp_all add: hd_rev)
  then have rear: "dropWhile isWhitespace (rev s) = rev s"
    by (cases "rev s") simp_all
  have "dropWhile isWhitespace (rev t @ rev s) = dropWhile isWhitespace (rev s)"
    using assms(4) by (intro dropWhile_append2) (simp add: list_all_iff)
  then show ?thesis
    by (simp add: trim_def front rear)
qed

lemma trim_bare:
  "s \<noteq> [] \<Longrightarrow> \<not> isWhitespace (hd s) \<Longrightarrow> \<not> isWhitespace (last s) \<Longrightarrow> trim s = s"
  using trim_trailing [of s "[]"] by simp

lemma trim_padded:
  assumes "s \<noteq> []" and "\<not> isWhitespace (hd s)" and "\<not> isWhitespace (last s)"
    and "list_all isWhitespace lead" and "list_all isWhitespace trail"
  shows "trim (lead @ s @ trail) = s"
proof -
  have "dropWhile isWhitespace (lead @ s @ trail) = dropWhile isWhitespace (s @ trail)"
    using assms(4) by (intro dropWhile_append2) (simp add: list_all_iff)
  then have "trim (lead @ s @ trail) = trim (s @ trail)"
    by (simp add: trim_def)
  then show ?thesis
    using trim_trailing [OF assms(1,2,3,5)] by simp
qed


lemma digit_cases:
  "d < 10 \<Longrightarrow> d = 0 \<or> d = 1 \<or> d = 2 \<or> d = 3 \<or> d = 4 \<or> d = 5 \<or> d = 6 \<or> d = 7 \<or> d = 8 \<or> d = (9::nat)"
  by arith

lemma digitValue_digitChar: "d < 10 \<Longrightarrow> digitValue (digitChar d) = Some d"
  using digit_cases [of d] by (auto simp: digitChar_def digitValue_def)

lemma digitChar_plain:
  "d < 10 \<Longrightarrow> \<not> isWhitespace (digitChar d) \<and> digitChar d \<noteq> CHR ''-'' \<and> digitChar d \<noteq> CHR ''+''
     \<and> digitChar d \<noteq> CHR ''x'' \<and> digitChar d \<noteq> CHR ''X'' \<and> digitChar d \<noteq> CHR '',''"
  using digit_cases [of d] by (auto simp: digitChar_def isWhitespace_def)

lemma digits_listed: "map digitChar [0..<10] = ''0123456789''"
  by (simp add: digitChar_def upt_rec)

lemma isDecimalDigit_iff: "isDecimalDigit c = (\<exists>d<10. c = digitChar d)"
proof -
  have "isDecimalDigit c = (c \<in> set (map digitChar [0..<10]))"
    unfolding digits_listed isDecimalDigit_def ..
  also have "\<dots> = (\<exists>d<10. c = digitChar d)"
    by (simp only: set_map set_upt) auto
  finally show ?thesis .
qed

lemma decimal_digits: "list_all isDecimalDigit (decimal n)"
proof (induction n rule: decimal.induct)
  case (1 n)
  show ?case
  proof (cases "n < 10")
    case True
    then show ?thesis
      by (subst decimal.simps) (auto simp: isDecimalDigit_iff)
  next
    case False
    have "n mod 10 < 10"
      by simp
    then have "isDecimalDigit (digitChar (n mod 10))"
      unfolding isDecimalDigit_iff by blast
    then show ?thesis
      using False 1 by (subst decimal.simps) simp
  qed
qed

lemma decimal_not_Nil: "decimal n \<noteq> []"
  by (subst decimal.simps) simp

lemma radixValue_snoc:
  "radixValue radix (z @ [c]) = radixValue radix z * radix + the (digitValue c)"
  by (simp add: radixValue_def)

lemma radixValue_decimal: "radixValue 10 (decimal n) = n"
proof (induction n rule: decimal.induct)
  case (1 n)
  show ?case
  proof (cases "n < 10")
    case True
    then show ?thesis
      by (subst decimal.simps) (simp add: radixValue_def digitValue_digitChar)
  next
    case False
    have "radixValue 10 (decimal (n div 10) @ [digitChar (n mod 10)]) = n div 10 * 10 + n mod 10"
      using 1 [OF False] by (simp add: radixValue_snoc digitValue_digitChar)
    then show ?thesis
      using False by (subst decimal.simps) simp
  qed
qed

lemma bitLength_le: "n < 2 ^ k \<Longrightarrow> bitLength n \<le> k"
proof (induction k arbitrary: n)
  case 0
  then show ?case
    by (simp add: bitLength.simps)
next
  case (Suc k)
  show ?case
  proof (cases "n = 0")
    case True
    then show ?thesis
      by (simp add: bitLength.simps)
  next
    case False
    from Suc.prems have "n div 2 < 2 ^ k"
      by simp
    then have "bitLength (n div 2) \<le> k"
      by (rule Suc.IH)
    then show ?thesis
      using False by (subst bitLength.simps) simp
  qed
qed

lemma toNumber_exact: "n < 2 ^ 53 \<Longrightarrow> toNumber negative n = Finite (if negative then - int n else int n)"
proof -
  assume n: "n < 2 ^ 53"
  then have b: "bitLength n \<le> 53"
    by (rule bitLength_le)
  have "(2::nat) ^ 53 \<le> 2 ^ 1024"
    by (rule power_increasing) simp_all
  with n have "\<not> 2 ^ 1024 \<le> n"
    by linarith
  then show ?thesis
    using b by (simp add: toNumber_def roundToDouble_def)
qed

lemma parseInt_decimal: "parseInt (decimal n) = toNumber False n"
proof -
  obtain c cs where d: "decimal n = c # cs"
    using decimal_not_Nil [of n] by (cases "decimal n") auto
  have digits: "list_all isDecimalDigit (c # cs)"
    using decimal_digits [of n] by (simp add: d)
  have plain: "\<not> isWhitespace x \<and> x \<noteq> CHR ''-'' \<and> x \<noteq> CHR ''+'' \<and> x \<noteq> CHR ''x'' \<and> x \<noteq> CHR ''X''
      \<and> isRadixDigit 10 x" if "isDecimalDigit x" for x
    using that digitChar_plain digitValue_digitChar
    by (auto simp: isDecimalDigit_iff isRadixDigit_def)
  have c: "\<not> isWhitespace c" "c \<noteq> CHR ''-''" "c \<noteq> CHR ''+''"
    using digits plain [of c] by simp_all
  have nohex: "\<not> startsWith (c # cs) ''0x''" "\<not> startsWith (c # cs) ''0X''"
    using digits plain by (cases cs; auto simp: startsWith_def)+
  have all: "takeWhile (isRadixDigit 10) (c # cs) = c # cs"
    using digits plain by (auto simp: takeWhile_eq_all_conv list_all_iff)
  have sign: "\<not> startsWith (c # cs) ''-''" "\<not> startsWith (c # cs) ''+''"
    using c by (simp_all add: startsWith_def)
  have lead: "dropWhile isWhitespace (c # cs) = c # cs"
    using c by simp
  have "parseInt (c # cs) = toNumber False (radixValue 10 (c # cs))"
    unfolding parseInt_def Let_def lead using sign nohex all by simp
  then show ?thesis
    using radixValue_decimal [of n] by (simp add: d)
qed

lemma parseInt_pid:
  "n < 2 ^ 53 \<Longrightarrow> parseInt (decimal n) = Finite (int n)"
  by (simp add: parseInt_decimal toNumber_exact)

lemma parseInt_not_a_number:
  assumes "\<not> isWhitespace c" and "c \<noteq> CHR ''-''" and "c \<noteq> CHR ''+''" and "\<not> isRadixDigit 10 c"
  shows "parseInt (c # cs) = NaN"
proof -
  have "c \<noteq> CHR ''0''"
    using assms(4) by (auto simp: isRadixDigit_def digitValue_def)
  then have nohex: "\<not> startsWith (c # cs) ''0x''" "\<not> startsWith (c # cs) ''0X''"
    by (simp_all add: startsWith_def)
  have sign: "\<not> startsWith (c # cs) ''-''" "\<not> startsWith (c # cs) ''+''"
    using assms(2,3) by (simp_all add: startsWith_def)
  have lead: "dropWhile isWhitespace (c # cs) = c # cs"
    using assms(1) by simp
  show ?thesis
    unfolding parseInt_def Let_def lead using sign nohex assms(4) by simp
qed

text \<open>Beyond \<open>2 ^ 53\<close> the number parsed is the nearest double, not the number
  written.\<close>

lemma parseInt_rounds: "parseInt ''9007199254740993'' = Finite 9007199254740992"
  by (simp add: parseInt_def Let_def startsWith_def isWhitespace_def isRadixDigit_def
      digitValue_def radixValue_def toNumber_def roundToDouble_def bitLength.simps)

lemma take_before_flag:
  assumes "x \<noteq> []"
  shows "take (length p) (x @ p @ rest) = take (length p) (x @ butlast p)"
proof -
  have "length p - length x \<le> length p - 1"
    using assms by (cases x) simp_all
  then have "take (length p - length x) (butlast p) = take (length p - length x) p"
    by (simp add: butlast_conv_take min_def)
  then show ?thesis
    by simp
qed

lemma startsWith_before_flag:
  assumes "x \<noteq> []"
  shows "startsWith (x @ p @ rest) p = startsWith (x @ butlast p) p"
  unfolding startsWith_def take_before_flag [OF assms] ..

lemma includesStr_flag: "p \<noteq> [] \<Longrightarrow> includesStr (pre @ p @ rest) p"
proof (induction pre)
  case Nil
  then obtain c cs where "p @ rest = c # cs"
    by (cases p) auto
  moreover have "startsWith (p @ rest) p"
    by (simp add: startsWith_def)
  ultimately show ?case
    by simp
next
  case (Cons c pre)
  then show ?case
    by simp
qed

lemma matchAt_no_flag: "\<not> startsWith s ''-projectPath'' \<Longrightarrow> matchAt s = None"
  by (simp add: matchAt_def)

lemma regexSearch_short: "length s < 12 \<Longrightarrow> regexSearch s = None"
proof (induction s)
  case Nil
  show ?case
    by (simp add: matchAt_def startsWith_def)
next
  case (Cons c s)
  have "\<not> startsWith (c # s) ''-projectPath''"
  proof
    assume "startsWith (c # s) ''-projectPath''"
    then have "length (take (length ''-projectPath'') (c # s)) = length ''-projectPath''"
      unfolding startsWith_def by (simp only:)
    with Cons.prems show False
      by simp
  qed
  then have "matchAt (c # s) = None"
    by (rule matchAt_no_flag)
  moreover have "regexSearch s = None"
    using Cons by simp
  ultimately show ?case
    by simp
qed

lemma regexSearch_skip:
  "\<not> includesStr (pre @ ''-projectPat'') ''-projectPath'' \<Longrightarrow>
   regexSearch (pre @ ''-projectPath'' @ rest) = regexSearch (''-projectPath'' @ rest)"
proof (induction pre)
  case Nil
  show ?case
    by simp
next
  case (Cons c pre)
  from Cons.prems have here: "\<not> startsWith ((c # pre) @ ''-projectPat'') ''-projectPath''"
    and later: "\<not> includesStr (pre @ ''-projectPat'') ''-projectPath''"
    by simp_all
  have "startsWith ((c # pre) @ ''-projectPath'' @ rest) ''-projectPath'' =
      startsWith ((c # pre) @ butlast ''-projectPath'') ''-projectPath''"
    by (rule startsWith_before_flag) simp
  with here have "\<not> startsWith ((c # pre) @ ''-projectPath'' @ rest) ''-projectPath''"
    by simp
  then have "matchAt ((c # pre) @ ''-projectPath'' @ rest) = None"
    by (rule matchAt_no_flag)
  then have "regexSearch ((c # pre) @ ''-projectPath'' @ rest) =
      regexSearch (pre @ ''-projectPath'' @ rest)"
    by simp
  then show ?case
    using Cons.IH [OF later] by simp
qed

lemma matchAt_flag:
  "matchAt (''-projectPath'' @ r) = whitespaceThenCapture (length (takeWhile isWhitespace r)) r"
  by (simp add: matchAt_def startsWith_def)

lemma regexSearch_flag:
  "matchAt (''-projectPath'' @ r) = Some g \<Longrightarrow> regexSearch (''-projectPath'' @ r) = Some g"
  by simp

lemma whitespaceThenCapture_gap:
  assumes "isGap gap" and "\<not> isWhitespace c" and "captureAt (c # cs) = Some g"
  shows "whitespaceThenCapture (length (takeWhile isWhitespace (gap @ c # cs))) (gap @ c # cs) = Some g"
proof -
  from assms(1) have ws: "list_all isWhitespace gap" and ne: "gap \<noteq> []"
    by (simp_all add: isGap_def)
  have "takeWhile isWhitespace (gap @ c # cs) = gap"
    using ws assms(2) by (rule takeWhile_gap)
  moreover obtain k where "length gap = Suc k"
    using ne by (cases gap) auto
  moreover have "drop (length gap) (gap @ c # cs) = c # cs"
    by simp
  ultimately show ?thesis
    using assms(3) by (metis option.simps(5) whitespaceThenCapture.simps(2))
qed

lemma captureAt_bare:
  "c \<noteq> quoteChar \<Longrightarrow> captureAt (c # cs) = Some (takeWhile (\<lambda>x. x \<noteq> quoteChar) (c # cs))"
  by (simp add: captureAt_def)

lemma takeWhile_until: "x \<notin> set path \<Longrightarrow> takeWhile (\<lambda>y. y \<noteq> x) (path @ x # rest) = path"
  by (induction path) auto

lemma captureAt_quoted:
  "path \<noteq> [] \<Longrightarrow> quoteChar \<notin> set path \<Longrightarrow>
   captureAt (quoteChar # path @ quoteChar # rest) = Some path"
proof -
  assume path: "path \<noteq> []" "quoteChar \<notin> set path"
  then have "takeWhile (\<lambda>x. x \<noteq> quoteChar) (path @ quoteChar # rest) = path"
    by (intro takeWhile_until)
  with path(1) show ?thesis
    by (simp add: captureAt_def)
qed

lemma extractProjectPath_bare:
  assumes "\<not> includesStr (pre @ ''-projectPat'') ''-projectPath''" and "isGap gap"
    and "path \<noteq> []" and "quoteChar \<notin> set path"
    and "\<not> isWhitespace (hd path)" and "\<not> isWhitespace (last path)"
  shows "extractProjectPath (pre @ ''-projectPath'' @ gap @ path) = Some path"
proof -
  obtain c cs where p: "path = c # cs"
    using assms(3) by (cases path) auto
  have c: "\<not> isWhitespace c" "c \<noteq> quoteChar"
    using assms(4,5) by (auto simp: p)
  have "takeWhile (\<lambda>x. x \<noteq> quoteChar) (c # cs) = c # cs"
    using assms(4) by (auto simp: p takeWhile_eq_all_conv)
  then have "captureAt (c # cs) = Some (c # cs)"
    using captureAt_bare [OF c(2), of cs] by simp
  then have "whitespaceThenCapture (length (takeWhile isWhitespace (gap @ c # cs))) (gap @ c # cs) =
      Some (c # cs)"
    using assms(2) c(1) by (intro whitespaceThenCapture_gap)
  then have "matchAt (''-projectPath'' @ gap @ c # cs) = Some (c # cs)"
    by (simp only: matchAt_flag)
  then have "regexSearch (''-projectPath'' @ gap @ c # cs) = Some (c # cs)"
    by (rule regexSearch_flag)
  then have "regexSearch (pre @ ''-projectPath'' @ gap @ path) = Some path"
    using regexSearch_skip [OF assms(1), of "gap @ path"] by (simp add: p)
  then show ?thesis
    using trim_bare [OF assms(3,5,6)] by (simp add: extractProjectPath_def)
qed

lemma extractProjectPath_quoted:
  assumes "\<not> includesStr (pre @ ''-projectPat'') ''-projectPath''" and "isGap gap"
    and "path \<noteq> []" and "quoteChar \<notin> set path"
    and "\<not> isWhitespace (hd path)" and "\<not> isWhitespace (last path)"
    and "list_all isWhitespace lead" and "list_all isWhitespace trail"
  shows "extractProjectPath
      (pre @ ''-projectPath'' @ gap @ [quoteChar] @ lead @ path @ trail @ [quoteChar] @ rest) =
      Some path"
proof -
  have q: "\<not> isWhitespace quoteChar"
    by (simp add: quoteChar_def isWhitespace_def)
  then have inner: "lead @ path @ trail \<noteq> []" "quoteChar \<notin> set (lead @ path @ trail)"
    using assms(3,4,7,8) by (auto simp: list_all_iff)
  have "captureAt (quoteChar # (lead @ path @ trail) @ quoteChar # rest) = Some (lead @ path @ trail)"
    using inner by (rule captureAt_quoted)
  then have "whitespaceThenCapture
      (length (takeWhile isWhitespace (gap @ quoteChar # (lead @ path @ trail) @ quoteChar # rest)))
      (gap @ quoteChar # (lead @ path @ trail) @ quoteChar # rest) = Some (lead @ path @ trail)"
    using assms(2) q by (intro whitespaceThenCapture_gap)
  then have "matchAt (''-projectPath'' @ gap @ quoteChar # (lead @ path @ trail) @ quoteChar # rest) =
      Some (lead @ path @ trail)"
    by (simp only: matchAt_flag)
  then have "regexSearch (''-projectPath'' @ gap @ quoteChar # (lead @ path @ trail) @ quoteChar # rest) =
      Some (lead @ path @ trail)"
    by (rule regexSearch_flag)
  then have "regexSearch
      (pre @ ''-projectPath'' @ gap @ [quoteChar] @ lead @ path @ trail @ [quoteChar] @ rest) =
      Some (lead @ path @ trail)"
    using regexSearch_skip [OF assms(1),
        of "gap @ [quoteChar] @ lead @ path @ trail @ [quoteChar] @ rest"]
    by simp
  then show ?thesis
    using trim_padded [OF assms(3,5,6,7,8)] by (simp add: extractProjectPath_def)
qed

lemma quotedPath_shape:
  assumes "quotedPath arg path"
  shows "\<exists>lead trail post. arg = [quoteChar] @ lead @ path @ trail @ [quoteChar] @ post \<and>
      list_all isWhitespace lead \<and> list_all isWhitespace trail"
proof -
  from assms obtain r where arg: "arg = quoteChar # r"
    by (cases arg) (auto simp: quotedPath_def)
  define r1 where "r1 = dropWhile isWhitespace r"
  define r2 where "r2 = dropWhile isWhitespace (drop (length path) r1)"
  from assms have p: "take (length path) r1 = path" and q: "take 1 r2 = [quoteChar]"
    by (simp_all add: quotedPath_def arg Let_def r1_def r2_def)
  have "r = takeWhile isWhitespace r @ r1"
    by (simp add: r1_def)
  moreover have "r1 = path @ drop (length path) r1"
    using p append_take_drop_id [of "length path" r1] by simp
  moreover have "drop (length path) r1 = takeWhile isWhitespace (drop (length path) r1) @ r2"
    by (simp add: r2_def)
  moreover have "r2 = quoteChar # tl r2"
    using q by (cases r2) simp_all
  ultimately have "arg = [quoteChar] @ takeWhile isWhitespace r @ path @
      takeWhile isWhitespace (drop (length path) r1) @ [quoteChar] @ tl r2"
    by (simp add: arg)
  moreover have "list_all isWhitespace (takeWhile isWhitespace r)"
    and "list_all isWhitespace (takeWhile isWhitespace (drop (length path) r1))"
    by (simp_all add: list_all_iff) (meson set_takeWhileD)+
  ultimately show ?thesis
    by blast
qed

lemma extractProjectPath_truncated:
  assumes "\<not> includesStr (pre @ ''-projectPat'') ''-projectPath''"
  shows "extractProjectPath (pre @ ''-projectPath'') = None"
proof -
  have "matchAt (''-projectPath'' @ []) = None"
    by (simp only: matchAt_flag) simp
  moreover have "regexSearch ''projectPath'' = None"
    by (rule regexSearch_short) simp
  ultimately have "regexSearch (''-projectPath'' @ []) = None"
    by simp
  then have "regexSearch (pre @ ''-projectPath'') = None"
    using regexSearch_skip [OF assms, of "[]"] by simp
  then show ?thesis
    by (simp add: extractProjectPath_def)
qed


text \<open>The pattern on some command lines: a bare path runs to the end of the line, a quoted
  one to the closing quote and is trimmed; the first flag decides; nothing, or only white
  space, behind the flag gives no path or the empty one; the flag needs white space behind
  it.\<close>

lemma extractProjectPath_examples:
  "extractProjectPath ''Unity -projectPath /proj/A -batchmode'' = Some ''/proj/A -batchmode''"
  "extractProjectPath (''Unity -projectPath '' @ [quoteChar] @ '' /a b/c '' @ [quoteChar] @ '' -x'') =
     Some ''/a b/c''"
  "extractProjectPath ''Unity -projectPath x -projectPath y'' = Some ''x -projectPath y''"
  "extractProjectPath (''Unity -projectPath '' @ [quoteChar, quoteChar]) = None"
  "extractProjectPath ''Unity -projectPath '' = None"
  "extractProjectPath ''Unity -projectPath  '' = Some []"
  "extractProjectPath ''Unity -projectPath/proj/A'' = None"
  by (simp_all add: extractProjectPath_def matchAt_def captureAt_def quoteChar_def trim_def
      startsWith_def isWhitespace_def)

lemma parseInt_examples:
  "parseInt ''4321'' = Finite 4321"
  "parseInt '' 42abc'' = Finite 42"
  "parseInt ''-5'' = Finite (- 5)"
  "parseInt ''+7'' = Finite 7"
  "parseInt ''0x1F'' = Finite 31"
  "parseInt ''0'' = Finite 0"
  "parseInt ''PID'' = NaN"
  "parseInt [] = NaN"
  by (simp_all add: parseInt_def Let_def startsWith_def isWhitespace_def isRadixDigit_def
      digitValue_def radixValue_def toNumber_def roundToDouble_def bitLength.simps)

lemma unixLineBody_fields:
  assumes "isWord user" and "columns rest"
  shows "splitWhitespace (spaced user rest) = user # map snd rest"
  using assms by (intro splitWhitespace_spaced) (simp add: isWord_def)

lemma unixLineBody_row:
  assumes "isWord user" and "columns rest" and "10 \<le> length rest"
    and "snd (rest ! 0) = decimal pid" and "0 < pid" and "pid < 2 ^ 53"
    and "joinWith '' '' (map snd (drop 9 rest)) = commandLine"
    and "extractProjectPath commandLine = Some path" and "path \<noteq> []"
    and "includesStr commandLine ''-projectPath''"
  shows "unixLineBody (spaced user rest) found =
      found @ [\<lparr>proc_pid = Finite (int pid), proc_projectPath = path,
                 proc_commandLine = commandLine\<rparr>]"
proof -
  have parts: "splitWhitespace (spaced user rest) = user # map snd rest"
    using assms(1,2) by (rule unixLineBody_fields)
  have "0 < length rest"
    using assms(3) by (cases rest) simp_all
  then have "map snd rest ! 0 = decimal pid"
    using assms(4) by (simp only: nth_map)
  then have pid: "parseInt (map snd rest ! 0) = Finite (int pid)"
    using parseInt_pid [OF assms(6)] by (simp only:)
  have cl: "joinWith '' '' (drop 9 (map snd rest)) = commandLine"
    using assms(7) by (simp add: drop_map)
  show ?thesis
    using assms(3,5,8,9,10) pid cl
    by (simp add: unixLineBody_def parts Let_def truthyNumber_def)
qed


lemma extractProjectPath_argument:
  assumes "flagFirst pre" and "isGap gap" and "pathArgument arg path"
  shows "extractProjectPath (pre @ ''-projectPath'' @ gap @ arg) = Some path"
proof -
  from assms(1) have first: "\<not> includesStr (pre @ ''-projectPat'') ''-projectPath''"
    by (simp add: flagFirst_def)
  from assms(3) have path: "path \<noteq> []" "quoteChar \<notin> set path"
      "\<not> isWhitespace (hd path)" "\<not> isWhitespace (last path)"
    by (simp_all add: pathArgument_def isPath_def)
  from assms(3) consider "arg = path" | "quotedPath arg path"
    unfolding pathArgument_def by blast
  then show ?thesis
  proof cases
    case 1
    then show ?thesis
      using extractProjectPath_bare [OF first assms(2) path] by simp
  next
    case 2
    then obtain lead trail post
      where "arg = [quoteChar] @ lead @ path @ trail @ [quoteChar] @ post"
        and "list_all isWhitespace lead" and "list_all isWhitespace trail"
      using quotedPath_shape by blast
    then show ?thesis
      using extractProjectPath_quoted [OF first assms(2) path, of lead trail post] by simp
  qed
qed

lemma unixLineBody_wellformed:
  assumes "unixRow user rest (decimal pid) (pre @ ''-projectPath'' @ gap @ arg)"
    and "0 < pid" and "pid < 2 ^ 53"
    and "flagFirst pre" and "isGap gap" and "pathArgument arg path"
  shows "unixLineBody (spaced user rest) found =
      found @ [\<lparr>proc_pid = Finite (int pid), proc_projectPath = path,
                 proc_commandLine = pre @ ''-projectPath'' @ gap @ arg\<rparr>]"
proof -
  from assms(1) have row: "isWord user" "columns rest" "10 \<le> length rest"
      "snd (rest ! 0) = decimal pid"
      "joinWith '' '' (map snd (drop 9 rest)) = pre @ ''-projectPath'' @ gap @ arg"
    unfolding unixRow_def by blast+
  have path: "extractProjectPath (pre @ ''-projectPath'' @ gap @ arg) = Some path"
    using assms(4,5,6) by (rule extractProjectPath_argument)
  have ne: "path \<noteq> []"
    using assms(6) by (simp add: pathArgument_def isPath_def)
  have flag: "includesStr (pre @ ''-projectPath'' @ gap @ arg) ''-projectPath''"
    by (rule includesStr_flag) simp
  show ?thesis
    using row(1-4) assms(2,3) row(5) path ne flag by (rule unixLineBody_row)
qed

lemma unixLineBody_few_columns:
  assumes "isWord user" and "columns rest" and "length rest < 10"
  shows "unixLineBody (spaced user rest) found = found"
  using assms(3) by (simp add: unixLineBody_def unixLineBody_fields [OF assms(1,2)])

lemma unixLineBody_no_number:
  assumes "isWord user" and "columns rest" and "10 \<le> length rest"
    and "snd (rest ! 0) = c # cs" and "c \<noteq> CHR ''-''" and "c \<noteq> CHR ''+''"
    and "\<not> isRadixDigit 10 c"
  shows "unixLineBody (spaced user rest) found = found"
proof -
  have "0 < length rest"
    using assms(3) by (cases rest) simp_all
  then have column: "map snd rest ! 0 = c # cs"
    using assms(4) by (simp only: nth_map)
  have "isWord (snd (rest ! 0))"
    using assms(2) \<open>0 < length rest\<close> by (simp add: columns_def list_all_length)
  then have "\<not> isWhitespace c"
    by (simp add: assms(4) isWord_def)
  then have "parseInt (c # cs) = NaN"
    using assms(5,6,7) by (rule parseInt_not_a_number)
  then show ?thesis
    by (simp add: unixLineBody_def unixLineBody_fields [OF assms(1,2)] Let_def column
        truthyNumber_def)
qed

lemma unixLineBody_pid_zero:
  assumes "isWord user" and "columns rest" and "10 \<le> length rest"
    and "snd (rest ! 0) = decimal 0"
  shows "unixLineBody (spaced user rest) found = found"
proof -
  have "0 < length rest"
    using assms(3) by (cases rest) simp_all
  then have "map snd rest ! 0 = decimal 0"
    using assms(4) by (simp only: nth_map)
  moreover have "parseInt (decimal 0) = Finite 0"
    using parseInt_pid [of 0] by simp
  ultimately show ?thesis
    by (simp add: unixLineBody_def unixLineBody_fields [OF assms(1,2)] Let_def truthyNumber_def)
qed

lemma unixLineBody_no_flag:
  assumes "isWord user" and "columns rest"
    and "\<not> includesStr (joinWith '' '' (map snd (drop 9 rest))) ''-projectPath''"
  shows "unixLineBody (spaced user rest) found = found"
  using assms(3)
  by (simp add: unixLineBody_def unixLineBody_fields [OF assms(1,2)] Let_def drop_map)

lemma unixLineBody_flag_last:
  assumes "isWord user" and "columns rest"
    and "joinWith '' '' (map snd (drop 9 rest)) = pre @ ''-projectPath''" and "flagFirst pre"
  shows "unixLineBody (spaced user rest) found = found"
proof -
  have "extractProjectPath (pre @ ''-projectPath'') = None"
    using assms(4) by (intro extractProjectPath_truncated) (simp add: flagFirst_def)
  then show ?thesis
    using assms(3)
    by (simp add: unixLineBody_def unixLineBody_fields [OF assms(1,2)] Let_def drop_map)
qed


lemma decimal_plain:
  assumes "x \<in> set (decimal n)"
  shows "\<not> isWhitespace x \<and> x \<noteq> CHR '',''"
proof -
  from assms decimal_digits [of n] have "isDecimalDigit x"
    by (simp add: list_all_iff)
  then obtain d where "d < 10" and "x = digitChar d"
    unfolding isDecimalDigit_iff by blast
  then show ?thesis
    using digitChar_plain [of d] by simp
qed

lemma whitespace_no_comma: "isWhitespace x \<Longrightarrow> x \<noteq> CHR '',''"
  by (auto simp: isWhitespace_def)

lemma windowsLineBody_fields:
  assumes "CHR '','' \<notin> set node" and "CHR '','' \<notin> set command" and "CHR '','' \<notin> set pidColumn"
  shows "splitOn (CHR '','') (csvRow node command pidColumn) = [node, command, pidColumn]"
proof -
  have "splitOn (CHR '','') (command @ CHR '','' # pidColumn) = [command, pidColumn]"
    using assms(2,3) by (simp add: splitOn_append splitOn_no_separator)
  then have "splitOn (CHR '','') (node @ CHR '','' # (command @ CHR '','' # pidColumn)) =
      [node, command, pidColumn]"
    using splitOn_append [OF assms(1), of "command @ CHR '','' # pidColumn"] by (simp only:)
  then show ?thesis
    by (simp add: csvRow_def)
qed

lemma pidColumn_trim:
  assumes "list_all isWhitespace trail"
  shows "trim (decimal pid @ trail) = decimal pid \<and> CHR '','' \<notin> set (decimal pid @ trail)"
proof -
  have ne: "decimal pid \<noteq> []"
    by (rule decimal_not_Nil)
  then have "hd (decimal pid) \<in> set (decimal pid)" and "last (decimal pid) \<in> set (decimal pid)"
    by simp_all
  then have "\<not> isWhitespace (hd (decimal pid))" and "\<not> isWhitespace (last (decimal pid))"
    using decimal_plain by blast+
  then have "trim (decimal pid @ trail) = decimal pid"
    using ne assms by (intro trim_trailing)
  moreover have "CHR '','' \<notin> set (decimal pid @ trail)"
    using assms decimal_plain [of "CHR '',''" pid] whitespace_no_comma
    by (auto simp: list_all_iff)
  ultimately show ?thesis
    by simp
qed

lemma windowsLineBody_row:
  assumes "CHR '','' \<notin> set node" and "CHR '','' \<notin> set commandLine"
    and "trim commandLine = commandLine" and "list_all isWhitespace trail"
    and "0 < pid" and "pid < 2 ^ 53"
    and "extractProjectPath commandLine = Some path" and "path \<noteq> []"
    and "includesStr commandLine ''-projectPath''"
  shows "windowsLineBody (csvRow node commandLine (decimal pid @ trail)) found =
      found @ [\<lparr>proc_pid = Finite (int pid), proc_projectPath = path,
                 proc_commandLine = commandLine\<rparr>]"
proof -
  have column: "trim (decimal pid @ trail) = decimal pid"
      "CHR '','' \<notin> set (decimal pid @ trail)"
    using pidColumn_trim [OF assms(4), of pid] by simp_all
  have parts: "splitOn (CHR '','') (csvRow node commandLine (decimal pid @ trail)) =
      [node, commandLine, decimal pid @ trail]"
    using assms(1,2) column(2) by (rule windowsLineBody_fields)
  have ne: "commandLine \<noteq> []"
    using assms(9) by (cases commandLine) simp_all
  have pid: "parseInt (decimal pid) = Finite (int pid)"
    using assms(6) by (rule parseInt_pid)
  show ?thesis
    using assms(3,5,7,8,9) ne
    by (simp add: windowsLineBody_def parts Let_def column(1) pid truthyNumber_def)
qed

lemma windowsLineBody_wellformed:
  assumes "CHR '','' \<notin> set node" and "CHR '','' \<notin> set (pre @ ''-projectPath'' @ gap @ arg)"
    and "trim (pre @ ''-projectPath'' @ gap @ arg) = pre @ ''-projectPath'' @ gap @ arg"
    and "list_all isWhitespace trail" and "0 < pid" and "pid < 2 ^ 53"
    and "flagFirst pre" and "isGap gap" and "pathArgument arg path"
  shows "windowsLineBody (csvRow node (pre @ ''-projectPath'' @ gap @ arg) (decimal pid @ trail)) found =
      found @ [\<lparr>proc_pid = Finite (int pid), proc_projectPath = path,
                 proc_commandLine = pre @ ''-projectPath'' @ gap @ arg\<rparr>]"
proof -
  have path: "extractProjectPath (pre @ ''-projectPath'' @ gap @ arg) = Some path"
    using assms(7,8,9) by (rule extractProjectPath_argument)
  have ne: "path \<noteq> []"
    using assms(9) by (simp add: pathArgument_def isPath_def)
  have flag: "includesStr (pre @ ''-projectPath'' @ gap @ arg) ''-projectPath''"
    by (rule includesStr_flag) simp
  show ?thesis
    using assms(1-6) path ne flag by (rule windowsLineBody_row)
qed

lemma windowsLineBody_few_fields:
  assumes "CHR '','' \<notin> set a" and "CHR '','' \<notin> set b"
  shows "windowsLineBody a found = found" and "windowsLineBody (a @ '','' @ b) found = found"
proof -
  show "windowsLineBody a found = found"
    using assms(1) by (simp add: windowsLineBody_def splitOn_no_separator)
  have "splitOn (CHR '','') (a @ CHR '','' # b) = [a, b]"
    using assms by (simp add: splitOn_append splitOn_no_separator)
  then show "windowsLineBody (a @ '','' @ b) found = found"
    by (simp add: windowsLineBody_def)
qed

lemma trim_head: "\<not> isWhitespace c \<Longrightarrow> \<exists>cs'. trim (c # cs) = c # cs'"
proof -
  assume c: "\<not> isWhitespace c"
  have "\<exists>ys. dropWhile isWhitespace (xs @ [c]) = ys @ [c]" for xs
    using c by (induction xs) auto
  then obtain ys where "dropWhile isWhitespace (rev cs @ [c]) = ys @ [c]"
    by blast
  then show ?thesis
    using c by (simp add: trim_def)
qed

lemma windowsLineBody_no_number:
  assumes "CHR '','' \<notin> set node" and "CHR '','' \<notin> set command" and "CHR '','' \<notin> set (c # cs)"
    and "\<not> isWhitespace c" and "c \<noteq> CHR ''-''" and "c \<noteq> CHR ''+''" and "\<not> isRadixDigit 10 c"
  shows "windowsLineBody (csvRow node command (c # cs)) found = found"
proof -
  have parts: "splitOn (CHR '','') (csvRow node command (c # cs)) = [node, command, c # cs]"
    using assms(1,2,3) by (rule windowsLineBody_fields)
  obtain cs' where "trim (c # cs) = c # cs'"
    using trim_head [OF assms(4)] by blast
  moreover have "parseInt (c # cs') = NaN"
    using assms(4,5,6,7) by (rule parseInt_not_a_number)
  ultimately show ?thesis
    by (simp add: windowsLineBody_def parts Let_def truthyNumber_def)
qed

lemma windowsLineBody_no_flag:
  assumes "CHR '','' \<notin> set node" and "CHR '','' \<notin> set command" and "CHR '','' \<notin> set pidColumn"
    and "\<not> includesStr (trim command) ''-projectPath''"
  shows "windowsLineBody (csvRow node command pidColumn) found = found"
  using assms(4)
  by (simp add: windowsLineBody_def windowsLineBody_fields [OF assms(1,2,3)] Let_def)

lemma unixLineBody_shape:
  "unixLineBody line [] = [] \<or>
   (\<exists>p. unixLineBody line [] = [p] \<and> truthyNumber (proc_pid p) \<and> proc_projectPath p \<noteq> [] \<and>
        includesStr (proc_commandLine p) ''-projectPath'' \<and>
        extractProjectPath (proc_commandLine p) = Some (proc_projectPath p))"
  by (simp add: unixLineBody_def Let_def split: option.splits)

lemma windowsLineBody_shape:
  "windowsLineBody line [] = [] \<or>
   (\<exists>p. windowsLineBody line [] = [p] \<and> truthyNumber (proc_pid p) \<and> proc_projectPath p \<noteq> [] \<and>
        includesStr (proc_commandLine p) ''-projectPath'' \<and>
        extractProjectPath (proc_commandLine p) = Some (proc_projectPath p))"
  by (simp add: windowsLineBody_def Let_def split: option.splits)

lemma unixLineBody_parsed:
  "\<forall>p \<in> set (unixLineBody line []).
     truthyNumber (proc_pid p) \<and> proc_projectPath p \<noteq> [] \<and>
     includesStr (proc_commandLine p) ''-projectPath'' \<and>
     extractProjectPath (proc_commandLine p) = Some (proc_projectPath p)"
  using unixLineBody_shape [of line] by auto

lemma windowsLineBody_parsed:
  "\<forall>p \<in> set (windowsLineBody line []).
     truthyNumber (proc_pid p) \<and> proc_projectPath p \<noteq> [] \<and>
     includesStr (proc_commandLine p) ''-projectPath'' \<and>
     extractProjectPath (proc_commandLine p) = Some (proc_projectPath p)"
  using windowsLineBody_shape [of line] by auto

lemma unixLineBody_length: "length (unixLineBody line []) \<le> 1"
  using unixLineBody_shape [of line] by auto

lemma windowsLineBody_length: "length (windowsLineBody line []) \<le> 1"
  using windowsLineBody_shape [of line] by auto

lemma findUnityProcesses_total:
  "\<exists>processes. findUnityProcesses platform importChildProcess execSync = Inr processes"
  by (cases importChildProcess; cases execSync)
    (simp_all add: findUnityProcesses_def findWindowsUnityProcesses_def
      findUnixUnityProcesses_def tryCatch_def)

lemma findUnityProcesses_import_fails:
  "findUnityProcesses platform (Inl error) execSync = Inr []"
  by (simp add: findUnityProcesses_def findWindowsUnityProcesses_def
      findUnixUnityProcesses_def tryCatch_def)

lemma findUnityProcesses_command_fails:
  "findUnityProcesses platform importChildProcess (Inl error) = Inr []"
  by (cases importChildProcess)
    (simp_all add: findUnityProcesses_def findWindowsUnityProcesses_def
      findUnixUnityProcesses_def tryCatch_def)

lemma platform_functions_reject:
  "findUnixUnityProcesses (Inl error) execSync = Inl error
   \<and> findWindowsUnityProcesses (Inl error) execSync = Inl error"
  by (simp add: findWindowsUnityProcesses_def findUnixUnityProcesses_def)

lemma findUnityProcesses_unix:
  "platform \<noteq> ''win32'' \<Longrightarrow>
   findUnityProcesses platform (Inr ()) (Inr listing) =
     Inr (concat (map (\<lambda>line. unixLineBody line [])
            (filter (\<lambda>line. trim line \<noteq> []) (splitOn (CHR 0x0A) listing))))"
  by (simp add: findUnityProcesses_def findUnixUnityProcesses_def tryCatch_def
      parseUnixProcessOutput_def unixLoop_concat)

lemma findUnityProcesses_windows:
  "findUnityProcesses ''win32'' (Inr ()) (Inr listing) =
     Inr (concat (map (\<lambda>line. windowsLineBody line [])
            (filter (\<lambda>line. trim line \<noteq> [] \<and> \<not> startsWith line ''Node'')
               (splitOn (CHR 0x0A) listing))))"
  by (simp add: findUnityProcesses_def findWindowsUnityProcesses_def tryCatch_def
      parseWindowsProcessOutput_def windowsLoop_concat)

text \<open>
  Claim C8. \<open>findUnityProcesses\<close> never fails: whatever the import of \<open>child_process\<close>
  and the listing command do, the result is a list, and it is the empty list when either of
  them fails. A failing command is caught in the platform function; a failing import makes
  the platform function itself reject, and \<open>findUnityProcesses\<close> catches that. The source
  has no LocateError: a failing enumeration is logged and looks like "no process found".
  Otherwise the result is the list of the processes parsed from the
  non-blank lines, in order. Every line is parsed on its own: it adds at most one process
  to what was found before and never changes it. Every process returned has a pid other
  than NaN and 0, a command line containing \<open>-projectPath\<close> and, as its project path, the
  non-empty text that the pattern extracts from that command line.

  A well-formed row is returned with its pid and its project path: a row of \<open>ps aux\<close>
  with at least ten columns before the command, a positive decimal pid below \<open>2 ^ 53\<close> in
  the second column and a command whose first \<open>-projectPath\<close> is followed by white space
  and a path (bare up to the end of the line, or quoted); and a CSV row
  \<open>Node,CommandLine,ProcessId\<close> whose command line has no comma and no white space around
  it, with white space (the carriage return) allowed behind the pid.

  A malformed row is skipped, leaving what was found before: a \<open>ps aux\<close> row with fewer
  than ten columns before the command, a pid column that does not begin with a digit or a
  sign, the pid 0, a command without \<open>-projectPath\<close>, a command that ends with the flag;
  a CSV row with fewer than three fields, a pid field that is not a number, a command line
  without the flag.
\<close>

theorem findUnityProcesses_partial_results:
  "(\<exists>processes. findUnityProcesses platform importChildProcess execSync = Inr processes)
   \<and> findUnityProcesses platform (Inl error) execSync = Inr []
   \<and> findUnityProcesses platform importChildProcess (Inl error) = Inr []
   \<and> (platform \<noteq> ''win32'' \<longrightarrow>
        findUnityProcesses platform (Inr ()) (Inr listing) =
          Inr (concat (map (\<lambda>line. unixLineBody line [])
                 (filter (\<lambda>line. trim line \<noteq> []) (splitOn (CHR 0x0A) listing)))))
   \<and> findUnityProcesses ''win32'' (Inr ()) (Inr listing) =
        Inr (concat (map (\<lambda>line. windowsLineBody line [])
               (filter (\<lambda>line. trim line \<noteq> [] \<and> \<not> startsWith line ''Node'')
                  (splitOn (CHR 0x0A) listing))))
   \<and> length (unixLineBody line []) \<le> 1 \<and> length (windowsLineBody line []) \<le> 1
   \<and> unixLineBody line found = found @ unixLineBody line []
   \<and> windowsLineBody line found = found @ windowsLineBody line []
   \<and> (\<forall>p \<in> set (unixLineBody line []) \<union> set (windowsLineBody line []).
        truthyNumber (proc_pid p) \<and> proc_projectPath p \<noteq> [] \<and>
        includesStr (proc_commandLine p) ''-projectPath'' \<and>
        extractProjectPath (proc_commandLine p) = Some (proc_projectPath p))
   \<and> (unixRow user rest (decimal pid) (pre @ ''-projectPath'' @ gap @ arg) \<and>
       0 < pid \<and> pid < 2 ^ 53 \<and> flagFirst pre \<and> isGap gap \<and> pathArgument arg path \<longrightarrow>
        unixLineBody (spaced user rest) found =
          found @ [\<lparr>proc_pid = Finite (int pid), proc_projectPath = path,
                     proc_commandLine = pre @ ''-projectPath'' @ gap @ arg\<rparr>])
   \<and> (CHR '','' \<notin> set node \<and> CHR '','' \<notin> set (pre @ ''-projectPath'' @ gap @ arg) \<and>
       trim (pre @ ''-projectPath'' @ gap @ arg) = pre @ ''-projectPath'' @ gap @ arg \<and>
       list_all isWhitespace trail \<and>
       0 < pid \<and> pid < 2 ^ 53 \<and> flagFirst pre \<and> isGap gap \<and> pathArgument arg path \<longrightarrow>
        windowsLineBody (csvRow node (pre @ ''-projectPath'' @ gap @ arg) (decimal pid @ trail)) found =
          found @ [\<lparr>proc_pid = Finite (int pid), proc_projectPath = path,
                     proc_commandLine = pre @ ''-projectPath'' @ gap @ arg\<rparr>])
   \<and> (isWord user \<and> columns rest \<and> length rest < 10 \<longrightarrow>
        unixLineBody (spaced user rest) found = found)
   \<and> (isWord user \<and> columns rest \<and> 10 \<le> length rest \<and> snd (rest ! 0) = c # cs \<and>
       c \<noteq> CHR ''-'' \<and> c \<noteq> CHR ''+'' \<and> \<not> isRadixDigit 10 c \<longrightarrow>
        unixLineBody (spaced user rest) found = found)
   \<and> (isWord user \<and> columns rest \<and> 10 \<le> length rest \<and> snd (rest ! 0) = decimal 0 \<longrightarrow>
        unixLineBody (spaced user rest) found = found)
   \<and> (isWord user \<and> columns rest \<and>
       \<not> includesStr (joinWith '' '' (map snd (drop 9 rest))) ''-projectPath'' \<longrightarrow>
        unixLineBody (spaced user rest) found = found)
   \<and> (isWord user \<and> columns rest \<and>
       joinWith '' '' (map snd (drop 9 rest)) = pre @ ''-projectPath'' \<and> flagFirst pre \<longrightarrow>
        unixLineBody (spaced user rest) found = found)
   \<and> (CHR '','' \<notin> set node \<and> CHR '','' \<notin> set command \<longrightarrow>
        windowsLineBody node found = found \<and>
        windowsLineBody (node @ '','' @ command) found = found)
   \<and> (CHR '','' \<notin> set node \<and> CHR '','' \<notin> set command \<and> CHR '','' \<notin> set (c # cs) \<and>
       \<not> isWhitespace c \<and> c \<noteq> CHR ''-'' \<and> c \<noteq> CHR ''+'' \<and> \<not> isRadixDigit 10 c \<longrightarrow>
        windowsLineBody (csvRow node command (c # cs)) found = found)
   \<and> (CHR '','' \<notin> set node \<and> CHR '','' \<notin> set command \<and> CHR '','' \<notin> set pidColumn \<and>
       \<not> includesStr (trim command) ''-projectPath'' \<longrightarrow>
        windowsLineBody (csvRow node command pidColumn) found = found)
   \<and> findUnixUnityProcesses (Inl error) execSync = Inl error
   \<and> findWindowsUnityProcesses (Inl error) execSync = Inl error"
proof -
  have parsed: "\<forall>p \<in> set (unixLineBody line []) \<union> set (windowsLineBody line []).
        truthyNumber (proc_pid p) \<and> proc_projectPath p \<noteq> [] \<and>
        includesStr (proc_commandLine p) ''-projectPath'' \<and>
        extractProjectPath (proc_commandLine p) = Some (proc_projectPath p)"
    using unixLineBody_parsed [of line] windowsLineBody_parsed [of line] by blast
  note facts = findUnityProcesses_total [of platform importChildProcess execSync]
    findUnityProcesses_import_fails [of platform error execSync]
    findUnityProcesses_command_fails [of platform importChildProcess error]
    findUnityProcesses_unix [of platform listing]
    findUnityProcesses_windows [of listing]
    unixLineBody_length [of line] windowsLineBody_length [of line]
    unixLineBody_append [of line found] windowsLineBody_append [of line found]
    parsed
    unixLineBody_wellformed [of user rest pid pre gap arg path found]
    windowsLineBody_wellformed [of node pre gap arg trail pid path found]
    unixLineBody_few_columns [of user rest found]
    unixLineBody_no_number [of user rest c cs found]
    unixLineBody_pid_zero [of user rest found]
    unixLineBody_no_flag [of user rest found]
    unixLineBody_flag_last [of user rest pre found]
    windowsLineBody_few_fields [of node command found]
    windowsLineBody_no_number [of node command c cs found]
    windowsLineBody_no_flag [of node command pidColumn found]
    platform_functions_reject [of error execSync, THEN conjunct1]
    platform_functions_reject [of error execSync, THEN conjunct2]
  show ?thesis
    by (intro conjI impI; (elim conjE)?; (rule facts; assumption)?)
qed

lemmas row_eval =
  unixRow_def isWord_def isGap_def columns_def spaced_def csvRow_def flagFirst_def
  pathArgument_def quotedPath_def isPath_def quoteChar_def isWhitespace_def startsWith_def trim_def
  Let_def
  decimal.simps digitChar_def carriageReturn_def lineFeed_def

theorem findUnityProcesses_partial_results_witness:
  "findUnityProcesses ''linux'' (Inr ()) (Inr exampleUnixListing) =
     Inr [\<lparr>proc_pid = Finite 1234, proc_projectPath = ''/proj/A'',
            proc_commandLine = ''/opt/Unity/Editor/Unity -projectPath /proj/A''\<rparr>]
   \<and> findUnityProcesses ''win32'' (Inr ()) (Inr exampleWindowsListing) =
     Inr [\<lparr>proc_pid = Finite 4321, proc_projectPath = ''C:/My Projects/B'',
            proc_commandLine = ''C:/Unity/Unity.exe -projectPath '' @ [quoteChar] @
              ''C:/My Projects/B'' @ [quoteChar] @ '' -batchmode''\<rparr>]
   \<and> findUnityProcesses ''linux'' (Inr ()) (Inl ''spawnSync /bin/sh ENOENT'') = Inr []
   \<and> findUnityProcesses ''linux'' (Inl ''Cannot find module'') (Inr exampleUnixListing) = Inr []"
proof -
  let ?rest1 = "[(''  '', ''1234''), ('' '', ''0.0''), ('' '', ''0.1''), ('' '', ''1''), ('' '', ''2''),
      ('' '', ''?''), ('' '', ''Sl''), ('' '', ''10:00''), ('' '', ''0:01''),
      ('' '', ''/opt/Unity/Editor/Unity''), ('' '', ''-projectPath''), ('' '', ''/proj/A'')]"
  let ?rest2 = "[('' '', ''77''), ('' '', ''0.0''), ('' '', ''0.1''), ('' '', ''1''), ('' '', ''2''),
      ('' '', ''?''), ('' '', ''Sl''), ('' '', ''10:00''), ('' '', ''0:01''),
      ('' '', ''unity-hub''), ('' '', ''--hidden'')]"
  let ?rest3 = "[('' '', ''-projectPath'')]"
  let ?line1 = "''u  1234 0.0 0.1 1 2 ? Sl 10:00 0:01 /opt/Unity/Editor/Unity -projectPath /proj/A''"
  let ?line2 = "''u 77 0.0 0.1 1 2 ? Sl 10:00 0:01 unity-hub --hidden''"
  let ?line3 = "''truncated -projectPath''"
  let ?arg = "[quoteChar] @ ''C:/My Projects/B'' @ [quoteChar] @ '' -batchmode''"
  let ?row1 = "''HOST,C:/Unity/Unity.exe -projectPath '' @ [quoteChar] @ ''C:/My Projects/B'' @
      [quoteChar] @ '' -batchmode,4321'' @ [carriageReturn]"
  let ?row2 = "''HOST,C:/Unity/Unity.exe -createProject,99'' @ [carriageReturn]"
  note t1 = findUnityProcesses_partial_results
    [where platform = "''linux''" and listing = exampleUnixListing and found = "[]"
       and importChildProcess = "Inr ()" and error = "''spawnSync /bin/sh ENOENT''"
       and user = "''u''" and rest = ?rest1 and pid = 1234
       and pre = "''/opt/Unity/Editor/Unity ''" and gap = "'' ''" and arg = "''/proj/A''"
       and path = "''/proj/A''"]
  note t2 = findUnityProcesses_partial_results
    [where platform = "''linux''" and found = "[]" and user = "''u''" and rest = ?rest2
       and error = "''Cannot find module''" and execSync = "Inr exampleUnixListing"]
  note t3 = findUnityProcesses_partial_results
    [where found = "[]" and user = "''truncated''" and rest = ?rest3]
  note w1 = findUnityProcesses_partial_results
    [where listing = exampleWindowsListing and found = "[]" and node = "''HOST''"
       and pre = "''C:/Unity/Unity.exe ''" and gap = "'' ''" and arg = ?arg
       and trail = "[carriageReturn]" and pid = 4321 and path = "''C:/My Projects/B''"]
  note w2 = findUnityProcesses_partial_results
    [where found = "[]" and node = "''HOST''" and command = "''C:/Unity/Unity.exe -createProject''"
       and pidColumn = "''99'' @ [carriageReturn]"]
  have unixLines: "filter (\<lambda>line. trim line \<noteq> []) (splitOn (CHR 0x0A) exampleUnixListing) =
      [?line1, ?line2, ?line3]"
    by (simp add: exampleUnixListing_def lineFeed_def trim_def isWhitespace_def)
  have h1: "unixRow ''u'' ?rest1 (decimal 1234) (''/opt/Unity/Editor/Unity '' @ ''-projectPath'' @ '' '' @ ''/proj/A'')
      \<and> 0 < (1234::nat) \<and> (1234::nat) < 2 ^ 53 \<and> flagFirst ''/opt/Unity/Editor/Unity '' \<and> isGap '' ''
      \<and> pathArgument ''/proj/A'' ''/proj/A''"
    by (simp add: row_eval)
  have s1: "spaced ''u'' ?rest1 = ?line1"
    by (simp add: spaced_def)
  from t1 [THEN conjunct2, THEN conjunct2, THEN conjunct2, THEN conjunct2, THEN conjunct2, THEN conjunct2, THEN conjunct2, THEN conjunct2, THEN conjunct2, THEN conjunct2, THEN conjunct1] h1
  have "unixLineBody (spaced ''u'' ?rest1) [] =
      [] @ [\<lparr>proc_pid = Finite (int 1234), proc_projectPath = ''/proj/A'',
              proc_commandLine = ''/opt/Unity/Editor/Unity '' @ ''-projectPath'' @ '' '' @ ''/proj/A''\<rparr>]"
    by (rule mp)
  then have r1: "unixLineBody ?line1 [] =
      [\<lparr>proc_pid = Finite 1234, proc_projectPath = ''/proj/A'',
         proc_commandLine = ''/opt/Unity/Editor/Unity -projectPath /proj/A''\<rparr>]"
    unfolding s1 by simp
  have h2: "isWord ''u'' \<and> columns ?rest2 \<and>
      \<not> includesStr (joinWith '' '' (map snd (drop 9 ?rest2))) ''-projectPath''"
    by (simp add: row_eval)
  have s2: "spaced ''u'' ?rest2 = ?line2"
    by (simp add: spaced_def)
  from t2 [THEN conjunct2, THEN conjunct2, THEN conjunct2, THEN conjunct2, THEN conjunct2, THEN conjunct2, THEN conjunct2, THEN conjunct2, THEN conjunct2, THEN conjunct2, THEN conjunct2, THEN conjunct2, THEN conjunct2, THEN conjunct2, THEN conjunct2, THEN conjunct1] h2
  have "unixLineBody (spaced ''u'' ?rest2) [] = []"
    by (rule mp)
  then have r2: "unixLineBody ?line2 [] = []"
    unfolding s2 .
  have h3: "isWord ''truncated'' \<and> columns ?rest3 \<and> length ?rest3 < 10"
    by (simp add: row_eval)
  have s3: "spaced ''truncated'' ?rest3 = ?line3"
    by (simp add: spaced_def)
  from t3 [THEN conjunct2, THEN conjunct2, THEN conjunct2, THEN conjunct2, THEN conjunct2, THEN conjunct2, THEN conjunct2, THEN conjunct2, THEN conjunct2, THEN conjunct2, THEN conjunct2, THEN conjunct2, THEN conjunct1] h3
  have "unixLineBody (spaced ''truncated'' ?rest3) [] = []"
    by (rule mp)
  then have r3: "unixLineBody ?line3 [] = []"
    unfolding s3 .
  have p: "''linux'' \<noteq> ''win32''"
    by simp
  from t1 [THEN conjunct2, THEN conjunct2, THEN conjunct2, THEN conjunct1] p
  have "findUnityProcesses ''linux'' (Inr ()) (Inr exampleUnixListing) =
      Inr (concat (map (\<lambda>line. unixLineBody line [])
             (filter (\<lambda>line. trim line \<noteq> []) (splitOn (CHR 0x0A) exampleUnixListing))))"
    by (rule mp)
  then have unix: "findUnityProcesses ''linux'' (Inr ()) (Inr exampleUnixListing) =
      Inr [\<lparr>proc_pid = Finite 1234, proc_projectPath = ''/proj/A'',
             proc_commandLine = ''/opt/Unity/Editor/Unity -projectPath /proj/A''\<rparr>]"
    unfolding unixLines by (simp add: r1 r2 r3)
  have windowsLines: "filter (\<lambda>line. trim line \<noteq> [] \<and> \<not> startsWith line ''Node'')
      (splitOn (CHR 0x0A) exampleWindowsListing) = [?row1, ?row2]"
    by (simp add: exampleWindowsListing_def lineFeed_def carriageReturn_def quoteChar_def trim_def
        isWhitespace_def startsWith_def)
  have g1: "CHR '','' \<notin> set ''HOST'' \<and>
      CHR '','' \<notin> set (''C:/Unity/Unity.exe '' @ ''-projectPath'' @ '' '' @ ?arg) \<and>
      trim (''C:/Unity/Unity.exe '' @ ''-projectPath'' @ '' '' @ ?arg) =
        ''C:/Unity/Unity.exe '' @ ''-projectPath'' @ '' '' @ ?arg \<and>
      list_all isWhitespace [carriageReturn] \<and> 0 < (4321::nat) \<and> (4321::nat) < 2 ^ 53 \<and>
      flagFirst ''C:/Unity/Unity.exe '' \<and> isGap '' '' \<and> pathArgument ?arg ''C:/My Projects/B''"
    by (simp add: row_eval)
  have c1: "csvRow ''HOST'' (''C:/Unity/Unity.exe '' @ ''-projectPath'' @ '' '' @ ?arg)
      (decimal 4321 @ [carriageReturn]) = ?row1"
    by (simp add: row_eval)
  from w1 [THEN conjunct2, THEN conjunct2, THEN conjunct2, THEN conjunct2, THEN conjunct2, THEN conjunct2, THEN conjunct2, THEN conjunct2, THEN conjunct2, THEN conjunct2, THEN conjunct2, THEN conjunct1] g1
  have "windowsLineBody (csvRow ''HOST'' (''C:/Unity/Unity.exe '' @ ''-projectPath'' @ '' '' @ ?arg)
        (decimal 4321 @ [carriageReturn])) [] =
      [] @ [\<lparr>proc_pid = Finite (int 4321), proc_projectPath = ''C:/My Projects/B'',
              proc_commandLine = ''C:/Unity/Unity.exe '' @ ''-projectPath'' @ '' '' @ ?arg\<rparr>]"
    by (rule mp)
  then have v1: "windowsLineBody ?row1 [] =
      [\<lparr>proc_pid = Finite 4321, proc_projectPath = ''C:/My Projects/B'',
         proc_commandLine = ''C:/Unity/Unity.exe -projectPath '' @ [quoteChar] @
           ''C:/My Projects/B'' @ [quoteChar] @ '' -batchmode''\<rparr>]"
    unfolding c1 by simp
  have g2: "CHR '','' \<notin> set ''HOST'' \<and> CHR '','' \<notin> set ''C:/Unity/Unity.exe -createProject'' \<and>
      CHR '','' \<notin> set (''99'' @ [carriageReturn]) \<and>
      \<not> includesStr (trim ''C:/Unity/Unity.exe -createProject'') ''-projectPath''"
    by (simp add: row_eval)
  have c2: "csvRow ''HOST'' ''C:/Unity/Unity.exe -createProject'' (''99'' @ [carriageReturn]) = ?row2"
    by (simp add: row_eval)
  from w2 [THEN conjunct2, THEN conjunct2, THEN conjunct2, THEN conjunct2, THEN conjunct2, THEN conjunct2, THEN conjunct2, THEN conjunct2, THEN conjunct2, THEN conjunct2, THEN conjunct2, THEN conjunct2, THEN conjunct2, THEN conjunct2, THEN conjunct2, THEN conjunct2, THEN conjunct2, THEN conjunct2, THEN conjunct2, THEN conjunct1] g2
  have "windowsLineBody
      (csvRow ''HOST'' ''C:/Unity/Unity.exe -createProject'' (''99'' @ [carriageReturn])) [] = []"
    by (rule mp)
  then have v2: "windowsLineBody ?row2 [] = []"
    unfolding c2 .
  from w1 [THEN conjunct2, THEN conjunct2, THEN conjunct2, THEN conjunct2, THEN conjunct1]
  have "findUnityProcesses ''win32'' (Inr ()) (Inr exampleWindowsListing) =
      Inr (concat (map (\<lambda>line. windowsLineBody line [])
             (filter (\<lambda>line. trim line \<noteq> [] \<and> \<not> startsWith line ''Node'')
                (splitOn (CHR 0x0A) exampleWindowsListing))))"
    .
  then have windows: "findUnityProcesses ''win32'' (Inr ()) (Inr exampleWindowsListing) =
      Inr [\<lparr>proc_pid = Finite 4321, proc_projectPath = ''C:/My Projects/B'',
             proc_commandLine = ''C:/Unity/Unity.exe -projectPath '' @ [quoteChar] @
               ''C:/My Projects/B'' @ [quoteChar] @ '' -batchmode''\<rparr>]"
    unfolding windowsLines by (simp only: list.map concat.simps v1 v2 append_Nil2)
  from t1 [THEN conjunct2, THEN conjunct2, THEN conjunct1]
  have failed: "findUnityProcesses ''linux'' (Inr ()) (Inl ''spawnSync /bin/sh ENOENT'') = Inr []"
    .
  from t2 [THEN conjunct2, THEN conjunct1]
  have rejected:
    "findUnityProcesses ''linux'' (Inl ''Cannot find module'') (Inr exampleUnixListing) = Inr []"
    .
  show ?thesis
    using unix windows failed rejected by (intro conjI)
qed


subsection \<open>Connection registry\<close>

lemma mapGet_mapSet: "mapGet (mapSet k v m) k' = (if k' = k then Some v else mapGet m k')"
  by (induction m) (auto simp: mapGet_def)

lemma mapGet_mapDelete: "mapGet (mapDelete k m) k' = (if k' = k then None else mapGet m k')"
  by (induction m) (auto simp: mapGet_def mapDelete_def)

lemma mapHas_mapGet: "mapHas m k \<longleftrightarrow> mapGet m k \<noteq> None"
  by (simp add: mapHas_def mapGet_def)

text \<open>
  Claim C5, as the code has it. When \<open>getProjectInfo\<close> succeeds and the registry holds an
  entry for the target with status \<open>connected\<close>, \<open>connectToProject\<close> returns that entry and
  leaves the whole registry as it was: no field of any entry changes, no \<open>UnityIPC\<close> is
  constructed, and the active target stays what it was. When there is no such entry the call
  creates a new connection object, stores it under the target and makes the target the active
  one. When \<open>getProjectInfo\<close> throws, the error is passed on and the registry is unchanged.
\<close>

theorem connectToProject_already_connected:
  "(env_projectInfo env = Inr info \<and> mapGet (connections m) target = Some c \<and>
      conn_status (objects m ! c) = StatusConnected
      \<longrightarrow> connectToProject target env m = (Inr c, m))
   \<and> (env_projectInfo env = Inr info \<and>
      \<not> (\<exists>c. mapGet (connections m) target = Some c \<and>
             conn_status (objects m ! c) = StatusConnected)
      \<longrightarrow> fst (connectToProject target env m) = Inr (length (objects m)) \<and>
          mapGet (connections (snd (connectToProject target env m))) target =
            Some (length (objects m)) \<and>
          activeConnection (snd (connectToProject target env m)) = Some target)
   \<and> (env_projectInfo env = Inl error \<longrightarrow> connectToProject target env m = (Inl error, m))"
  by (auto simp: connectToProject_def Let_def mapGet_mapSet split: option.splits)

lemmas registry_eval =
  connectToProject_def exampleEnv_def exampleInfo_def newUnityConnectionManager_def Let_def
  mapGet_def awaitConnect_def newUnityIPC_def connect_def socketIs_def setSocket_def
  onConnect_def onError_def connectTimeout_def destroy_def getUnityPID_def
  findUnityProcesses_def findUnixUnityProcesses_def tryCatch_def

lemma exampleTwoProjects_connections:
  "connections exampleTwoProjects = [(''/proj/A'', 0), (''/proj/B'', 1)]"
  by (simp add: exampleTwoProjects_def registry_eval)

lemma exampleTwoProjects_objects:
  "map (\<lambda>c. (conn_projectPath c, conn_status c, conn_lastHeartbeat c)) (objects exampleTwoProjects) =
     [(''/proj/A'', StatusConnected, 0), (''/proj/B'', StatusConnected, 0)]"
  by (simp add: exampleTwoProjects_def registry_eval)

lemma exampleTwoProjects_active: "activeConnection exampleTwoProjects = Some ''/proj/B''"
  by (simp add: exampleTwoProjects_def registry_eval)

lemma exampleProjectOnly_connections: "connections exampleProjectOnly = [(''/proj/A'', 0)]"
  by (simp add: exampleProjectOnly_def registry_eval)

lemma exampleProjectOnly_objects:
  "map (\<lambda>c. (conn_projectPath c, conn_status c, conn_lastHeartbeat c)) (objects exampleProjectOnly) =
     [(''/proj/A'', StatusProjectOnly, 0)]"
  by (simp add: exampleProjectOnly_def registry_eval)

theorem connectToProject_already_connected_witness:
  "env_projectInfo (exampleEnv ''/proj/A'' PeerAccepts None) = Inr (exampleInfo ''/proj/A'')
   \<and> mapGet (connections exampleTwoProjects) ''/proj/A'' = Some 0
   \<and> conn_status (objects exampleTwoProjects ! 0) = StatusConnected
   \<and> connectToProject ''/proj/A'' (exampleEnv ''/proj/A'' PeerAccepts None) exampleTwoProjects =
       (Inr 0, exampleTwoProjects)
   \<and> activeConnection exampleTwoProjects = Some ''/proj/B''"
proof -
  have i: "env_projectInfo (exampleEnv ''/proj/A'' PeerAccepts None) = Inr (exampleInfo ''/proj/A'')"
    by (simp add: exampleEnv_def)
  have g: "mapGet (connections exampleTwoProjects) ''/proj/A'' = Some 0"
    by (simp add: exampleTwoProjects_connections mapGet_def)
  have c: "conn_status (objects exampleTwoProjects ! 0) = StatusConnected"
    by (simp add: exampleTwoProjects_def registry_eval)
  note t = connectToProject_already_connected
    [of "exampleEnv ''/proj/A'' PeerAccepts None" "exampleInfo ''/proj/A''" exampleTwoProjects
      "''/proj/A''" 0]
  show ?thesis
    using t i g c exampleTwoProjects_active by blast
qed

text \<open>
  With \<open>/proj/A\<close> and \<open>/proj/B\<close> connected and \<open>/proj/B\<close> active, connecting \<open>/proj/A\<close>
  again returns its entry and leaves \<open>/proj/B\<close> the active target.
\<close>

theorem connectToProject_active_counterexample:
  "fst (connectToProject ''/proj/A'' (exampleEnv ''/proj/A'' PeerAccepts None) exampleTwoProjects) = Inr 0
   \<and> activeConnection
        (snd (connectToProject ''/proj/A'' (exampleEnv ''/proj/A'' PeerAccepts None) exampleTwoProjects))
       \<noteq> Some ''/proj/A''"
  by (simp add: exampleTwoProjects_def registry_eval)

subsection \<open>Health sweep\<close>

lemma healthBody_objects:
  "c < length (objects m) \<Longrightarrow>
   objects (healthBody c access now m) = (objects m)[c := sweptEntry access now (objects m ! c)]"
  by (auto simp: healthBody_def isConnectionHealthy_def sweptEntry_def)

lemma healthBody_emitted:
  "mgr_emitted (healthBody c access now m) =
     mgr_emitted m @ (if isConnectionHealthy access (objects m ! c) then [] else [ConnectionError c])"
  by (simp add: healthBody_def)

lemma healthBody_rest:
  "connections (healthBody c access now m) = connections m \<and>
   activeConnection (healthBody c access now m) = activeConnection m \<and>
   ipcObjects (healthBody c access now m) = ipcObjects m \<and>
   unityIPCConnections (healthBody c access now m) = unityIPCConnections m \<and>
   ipcListeners (healthBody c access now m) = ipcListeners m \<and>
   length (objects (healthBody c access now m)) = length (objects m)"
  by (simp add: healthBody_def)

lemma healthLoop_rest:
  "connections (healthLoop es access now m) = connections m \<and>
   activeConnection (healthLoop es access now m) = activeConnection m \<and>
   ipcObjects (healthLoop es access now m) = ipcObjects m \<and>
   unityIPCConnections (healthLoop es access now m) = unityIPCConnections m \<and>
   ipcListeners (healthLoop es access now m) = ipcListeners m \<and>
   length (objects (healthLoop es access now m)) = length (objects m)"
  by (induction es arbitrary: m) (simp_all add: healthBody_rest)

lemma healthLoop_objects:
  "distinct (map snd es) \<Longrightarrow> list_all (\<lambda>e. snd e < length (objects m)) es \<Longrightarrow>
   i < length (objects m) \<Longrightarrow>
   objects (healthLoop es access now m) ! i =
     (if i \<in> snd ` set es then sweptEntry access now (objects m ! i) else objects m ! i)"
proof (induction es arbitrary: m)
  case Nil
  show ?case by simp
next
  case (Cons e es)
  let ?m = "healthBody (snd e) access now m"
  have len: "length (objects ?m) = length (objects m)"
    by (simp add: healthBody_rest)
  have e: "snd e < length (objects m)" and rest: "list_all (\<lambda>e. snd e < length (objects ?m)) es"
    using Cons.prems(2) len by simp_all
  have d: "distinct (map snd es)" and fresh: "snd e \<notin> snd ` set es"
    using Cons.prems(1) by simp_all
  have step: "objects ?m = (objects m)[snd e := sweptEntry access now (objects m ! snd e)]"
    using e by (rule healthBody_objects)
  have "objects (healthLoop es access now ?m) ! i =
      (if i \<in> snd ` set es then sweptEntry access now (objects ?m ! i) else objects ?m ! i)"
    using d rest Cons.prems(3) len by (intro Cons.IH) simp_all
  then show ?case
    using fresh e Cons.prems(3) by (auto simp: step nth_list_update)
qed

lemma healthLoop_emitted:
  "distinct (map snd es) \<Longrightarrow> list_all (\<lambda>e. snd e < length (objects m)) es \<Longrightarrow>
   mgr_emitted (healthLoop es access now m) =
     mgr_emitted m @ map ConnectionError
       (filter (\<lambda>c. \<not> isConnectionHealthy access (objects m ! c)) (map snd es))"
proof (induction es arbitrary: m)
  case Nil
  show ?case by simp
next
  case (Cons e es)
  let ?m = "healthBody (snd e) access now m"
  have len: "length (objects ?m) = length (objects m)"
    by (simp add: healthBody_rest)
  have e: "snd e < length (objects m)" and rest: "list_all (\<lambda>e. snd e < length (objects ?m)) es"
    using Cons.prems(2) len by simp_all
  have d: "distinct (map snd es)" and fresh: "snd e \<notin> snd ` set es"
    using Cons.prems(1) by simp_all
  have same: "\<forall>c \<in> snd ` set es. objects ?m ! c = objects m ! c"
    using fresh e by (auto simp: healthBody_objects nth_list_update)
  then have filt: "filter (\<lambda>c. \<not> isConnectionHealthy access (objects ?m ! c)) (map snd es) =
      filter (\<lambda>c. \<not> isConnectionHealthy access (objects m ! c)) (map snd es)"
    by (intro filter_cong) auto
  have "mgr_emitted (healthLoop es access now ?m) =
      mgr_emitted ?m @ map ConnectionError
        (filter (\<lambda>c. \<not> isConnectionHealthy access (objects ?m ! c)) (map snd es))"
    using d rest by (rule Cons.IH)
  then show ?case
    by (simp add: filt healthBody_emitted)
qed

lemma isConnectionHealthy_iff:
  "isConnectionHealthy access c \<longleftrightarrow>
     conn_status c = StatusConnected \<and> conn_projectPath c \<noteq> [] \<and> access (conn_projectPath c)"
  by (auto simp: isConnectionHealthy_def)

text \<open>
  Claim C6, as the code has it. In a registry where every key has its own connection object,
  one sweep turns each entry into what the loop body makes of that entry alone: an entry
  whose status is \<open>connected\<close>, whose path is not empty and whose directory is reachable
  keeps its status and gets the new heartbeat; every other entry (so also every
  \<open>project_only\<close> entry, reachable or not) gets status \<open>error\<close>, and a \<open>connectionError\<close> is
  emitted for exactly these, in map order. What an entry becomes does not depend on any other
  entry; the maps, the active target and the transports are untouched; the sweep has no
  failing branch.
\<close>

theorem checkConnectionHealth_per_entry:
  assumes "distinct (map snd (connections m))"
    and "list_all (\<lambda>e. snd e < length (objects m)) (connections m)"
  shows "(\<forall>e \<in> set (connections m).
            objects (checkConnectionHealth access now m) ! snd e =
              (if conn_status (objects m ! snd e) = StatusConnected \<and>
                  conn_projectPath (objects m ! snd e) \<noteq> [] \<and>
                  access (conn_projectPath (objects m ! snd e))
               then (objects m ! snd e)\<lparr>conn_lastHeartbeat := now\<rparr>
               else (objects m ! snd e)\<lparr>conn_status := StatusError\<rparr>))
         \<and> mgr_emitted (checkConnectionHealth access now m) =
             mgr_emitted m @ map ConnectionError
               (filter (\<lambda>c. \<not> (conn_status (objects m ! c) = StatusConnected \<and>
                               conn_projectPath (objects m ! c) \<noteq> [] \<and>
                               access (conn_projectPath (objects m ! c))))
                  (map snd (connections m)))
         \<and> connections (checkConnectionHealth access now m) = connections m
         \<and> activeConnection (checkConnectionHealth access now m) = activeConnection m
         \<and> ipcObjects (checkConnectionHealth access now m) = ipcObjects m
         \<and> unityIPCConnections (checkConnectionHealth access now m) = unityIPCConnections m"
proof -
  have entries: "\<forall>e \<in> set (connections m).
      objects (checkConnectionHealth access now m) ! snd e =
        sweptEntry access now (objects m ! snd e)"
  proof
    fix e
    assume e: "e \<in> set (connections m)"
    then have "snd e < length (objects m)"
      using assms(2) by (simp add: list_all_iff)
    then show "objects (checkConnectionHealth access now m) ! snd e =
        sweptEntry access now (objects m ! snd e)"
      using assms e by (simp add: checkConnectionHealth_def healthLoop_objects)
  qed
  have emitted: "mgr_emitted (checkConnectionHealth access now m) =
      mgr_emitted m @ map ConnectionError
        (filter (\<lambda>c. \<not> isConnectionHealthy access (objects m ! c)) (map snd (connections m)))"
    using assms by (simp add: checkConnectionHealth_def healthLoop_emitted)
  show ?thesis
    using entries emitted healthLoop_rest [of "connections m" access now m]
    by (simp add: checkConnectionHealth_def sweptEntry_def isConnectionHealthy_iff)
qed

theorem checkConnectionHealth_per_entry_witness:
  "distinct (map snd (connections exampleTwoProjects))
   \<and> list_all (\<lambda>e. snd e < length (objects exampleTwoProjects)) (connections exampleTwoProjects)
   \<and> conn_status (objects (checkConnectionHealth (\<lambda>p. p \<noteq> ''/proj/A'') 30 exampleTwoProjects) ! 0) = StatusError
   \<and> conn_status (objects (checkConnectionHealth (\<lambda>p. p \<noteq> ''/proj/A'') 30 exampleTwoProjects) ! 1) = StatusConnected
   \<and> conn_lastHeartbeat (objects (checkConnectionHealth (\<lambda>p. p \<noteq> ''/proj/A'') 30 exampleTwoProjects) ! 1) = 30
   \<and> mgr_emitted (checkConnectionHealth (\<lambda>p. p \<noteq> ''/proj/A'') 30 exampleTwoProjects) =
       mgr_emitted exampleTwoProjects @ [ConnectionError 0]"
proof -
  have len: "length (objects exampleTwoProjects) = 2"
    by (simp add: exampleTwoProjects_def registry_eval)
  have o0: "conn_projectPath (objects exampleTwoProjects ! 0) = ''/proj/A'' \<and>
            conn_status (objects exampleTwoProjects ! 0) = StatusConnected"
    by (simp add: exampleTwoProjects_def registry_eval)
  have o1: "conn_projectPath (objects exampleTwoProjects ! Suc 0) = ''/proj/B'' \<and>
            conn_status (objects exampleTwoProjects ! Suc 0) = StatusConnected"
    by (simp add: exampleTwoProjects_def registry_eval)
  have d: "distinct (map snd (connections exampleTwoProjects))"
    by (simp add: exampleTwoProjects_connections)
  have b: "list_all (\<lambda>e. snd e < length (objects exampleTwoProjects)) (connections exampleTwoProjects)"
    by (simp add: exampleTwoProjects_connections len)
  note t = checkConnectionHealth_per_entry [OF d b, of "\<lambda>p. p \<noteq> ''/proj/A''" 30]
  show ?thesis
    using t d b by (simp add: exampleTwoProjects_connections o0 o1)
qed

text \<open>
  A \<open>project_only\<close> entry whose directory is reachable is set to \<open>error\<close> by the sweep, and
  its heartbeat is not refreshed.
\<close>

theorem checkConnectionHealth_reachable_counterexample:
  "conn_status (objects exampleProjectOnly ! 0) = StatusProjectOnly
   \<and> conn_status (objects (checkConnectionHealth (\<lambda>p. True) 30 exampleProjectOnly) ! 0) = StatusError
   \<and> conn_lastHeartbeat (objects (checkConnectionHealth (\<lambda>p. True) 30 exampleProjectOnly) ! 0) = 0"
  by (simp add: exampleProjectOnly_def registry_eval checkConnectionHealth_def healthBody_def
      isConnectionHealthy_def)

subsection \<open>Message correlation\<close>

lemma mapHas_iff: "mapHas m k \<longleftrightarrow> k \<in> fst ` set m"
  by (simp add: mapHas_def map_of_eq_None_iff)

lemma mapGet_Some_iff: "distinct (map fst m) \<Longrightarrow> mapGet m k = Some v \<longleftrightarrow> (k, v) \<in> set m"
  by (simp add: mapGet_def)

lemma mapSet_fresh: "k \<notin> fst ` set m \<Longrightarrow> mapSet k v m = m @ [(k, v)]"
  by (induction m) auto

lemma set_mapDelete: "set (mapDelete k m) = {e \<in> set m. fst e \<noteq> k}"
  by (auto simp: mapDelete_def)

lemma distinct_mapDelete:
  "distinct (map f m) \<Longrightarrow> distinct (map f (mapDelete k m))"
  by (simp add: mapDelete_def distinct_map_filter)

lemma distinct_map_eq:
  "distinct (map f xs) \<Longrightarrow> x \<in> set xs \<Longrightarrow> y \<in> set xs \<Longrightarrow> f x = f y \<Longrightarrow> x = y"
  by (simp add: distinct_map inj_on_def)

lemma generateMessageId_length: "length (generateMessageId r) = 16"
  by (simp add: generateMessageId_def)

lemma generateMessageId_nonempty: "generateMessageId r \<noteq> []"
  using generateMessageId_length [of r] by auto

lemma correlatorInv_cong:
  "messageHandlers s' = messageHandlers s \<Longrightarrow> responseTimers s' = responseTimers s \<Longrightarrow>
   settled s' = settled s \<Longrightarrow> nextCall s' = nextCall s \<Longrightarrow>
   correlatorInv used s' = correlatorInv used s"
  by (simp add: correlatorInv_def)

lemma inv_timers_used: "correlatorInv used s \<Longrightarrow> fst ` set (responseTimers s) \<subseteq> used"
  by (simp add: correlatorInv_def)

lemma correlatorInv_mono:
  assumes "correlatorInv used s" "used \<subseteq> used'"
  shows "correlatorInv used' s"
proof -
  have "fst ` set (responseTimers s) \<subseteq> used'"
    using inv_timers_used [OF assms(1)] assms(2) by (rule subset_trans)
  then show ?thesis
    using assms(1) by (simp add: correlatorInv_def)
qed

lemma inv_handler_timer:
  "correlatorInv used s \<Longrightarrow> (i, c) \<in> set (messageHandlers s) \<Longrightarrow>
   \<exists>cmd. (i, c, cmd) \<in> set (responseTimers s)"
  unfolding correlatorInv_def by blast

lemma inv_handler_unsettled:
  "correlatorInv used s \<Longrightarrow> (i, c) \<in> set (messageHandlers s) \<Longrightarrow> c \<notin> fst ` set (settled s)"
  unfolding correlatorInv_def by blast

lemma inv_timer_bound:
  "correlatorInv used s \<Longrightarrow> t \<in> set (responseTimers s) \<Longrightarrow> fst (snd t) < nextCall s"
  unfolding correlatorInv_def by blast

lemma inv_timer_used:
  "correlatorInv used s \<Longrightarrow> t \<in> set (responseTimers s) \<Longrightarrow> fst t \<in> used"
  using inv_timers_used [of used s] by (rule_tac subsetD [OF _ imageI])

lemma inv_settled_bound:
  "correlatorInv used s \<Longrightarrow> c \<in> fst ` set (settled s) \<Longrightarrow> c < nextCall s"
  unfolding correlatorInv_def by blast

lemma inv_pending:
  "correlatorInv used s \<Longrightarrow> c < nextCall s \<Longrightarrow>
     c \<in> fst ` set (settled s) \<or>
     (\<exists>i cmd. (i, c, cmd) \<in> set (responseTimers s) \<and> (i, c) \<in> set (messageHandlers s))"
  unfolding correlatorInv_def by blast

lemma inv_distinct:
  "correlatorInv used s \<Longrightarrow>
     distinct (map fst (messageHandlers s)) \<and> distinct (map fst (responseTimers s)) \<and>
     distinct (map (\<lambda>t. fst (snd t)) (responseTimers s)) \<and> distinct (map fst (settled s))"
  unfolding correlatorInv_def by blast

lemma inv_handler_used:
  assumes "correlatorInv used s" "(i, c) \<in> set (messageHandlers s)"
  shows "i \<in> used"
proof -
  obtain cmd where "(i, c, cmd) \<in> set (responseTimers s)"
    using inv_handler_timer [OF assms] by blast
  then show ?thesis
    using inv_timer_used [OF assms(1)] by fastforce
qed

lemma inv_handler_bound:
  assumes "correlatorInv used s" "(i, c) \<in> set (messageHandlers s)"
  shows "c < nextCall s"
proof -
  obtain cmd where "(i, c, cmd) \<in> set (responseTimers s)"
    using inv_handler_timer [OF assms] by blast
  then show ?thesis
    using inv_timer_bound [OF assms(1)] by fastforce
qed

lemma inv_timer_by_id:
  assumes "correlatorInv used s" "(i, c, cmd) \<in> set (responseTimers s)"
    "(i, c', cmd') \<in> set (responseTimers s)"
  shows "c' = c \<and> cmd' = cmd"
  using distinct_map_eq [of fst "responseTimers s" "(i, c, cmd)" "(i, c', cmd')"]
    inv_distinct [OF assms(1)] assms(2,3) by simp

lemma inv_timer_by_call:
  assumes "correlatorInv used s" "(i, c, cmd) \<in> set (responseTimers s)"
    "(i', c, cmd') \<in> set (responseTimers s)"
  shows "i' = i \<and> cmd' = cmd"
  using distinct_map_eq [of "\<lambda>t. fst (snd t)" "responseTimers s" "(i, c, cmd)" "(i', c, cmd')"]
    inv_distinct [OF assms(1)] assms(2,3) by simp

lemma correlatorInv_new: "correlatorInv used (newUnityIPC projectPath)"
  by (simp add: correlatorInv_def newUnityIPC_def)

lemma inv_sendCommand_rejected:
  assumes inv: "correlatorInv used s" and off: "\<not> isConnected s \<or> socket s = None"
  shows "correlatorInv used (sendCommand command parameters r s)"
proof -
  let ?c = "nextCall s"
  let ?s = "sendCommand command parameters r s"
  have fields: "messageHandlers ?s = messageHandlers s" "responseTimers ?s = responseTimers s"
    "nextCall ?s = Suc ?c" "settled ?s = settled s @ [(?c, Rejected ''Not connected to Unity Editor'')]"
    using off by (auto simp: sendCommand_def Let_def)
  have fresh: "?c \<notin> fst ` set (settled s)"
    using inv_settled_bound [OF inv, of ?c] by auto
  have hb: "\<forall>i c. (i, c) \<in> set (messageHandlers s) \<longrightarrow> c \<noteq> ?c"
    using inv_handler_bound [OF inv] by fastforce
  have d: "distinct (map fst (messageHandlers s))" "distinct (map fst (responseTimers s))"
    "distinct (map (\<lambda>t. fst (snd t)) (responseTimers s))" "distinct (map fst (settled s))"
    using inv_distinct [OF inv] by simp_all
  have c5: "fst ` set (responseTimers s) \<subseteq> used"
    by (rule inv_timers_used [OF inv])
  have c6: "\<forall>i c. (i, c) \<in> set (messageHandlers ?s) \<longrightarrow>
            c \<notin> fst ` set (settled ?s) \<and> (\<exists>cmd. (i, c, cmd) \<in> set (responseTimers ?s))"
    using inv_handler_unsettled [OF inv] inv_handler_timer [OF inv] hb
    unfolding fields by auto
  have c7: "\<forall>t. t \<in> set (responseTimers ?s) \<longrightarrow> fst (snd t) < nextCall ?s"
    using inv_timer_bound [OF inv] unfolding fields by (auto simp: less_Suc_eq)
  have c8: "\<forall>c. c \<in> fst ` set (settled ?s) \<longrightarrow> c < nextCall ?s"
    using inv_settled_bound [OF inv] unfolding fields by (auto simp: less_Suc_eq)
  have c9: "\<forall>c. c < nextCall ?s \<longrightarrow>
            c \<in> fst ` set (settled ?s) \<or>
            (\<exists>i cmd. (i, c, cmd) \<in> set (responseTimers ?s) \<and> (i, c) \<in> set (messageHandlers ?s))"
  proof (intro allI impI)
    fix c
    assume "c < nextCall ?s"
    then consider "c = ?c" | "c < ?c"
      unfolding fields by linarith
    then show "c \<in> fst ` set (settled ?s) \<or>
            (\<exists>i cmd. (i, c, cmd) \<in> set (responseTimers ?s) \<and> (i, c) \<in> set (messageHandlers ?s))"
    proof cases
      case 1
      then show ?thesis unfolding fields by simp
    next
      case 2
      from inv_pending [OF inv this] show ?thesis unfolding fields by auto
    qed
  qed
  have c4: "distinct (map fst (settled ?s))"
    using d(4) fresh unfolding fields by simp
  show ?thesis
    unfolding correlatorInv_def
    using c4 c5 c6 c7 c8 c9 d(1-3) unfolding fields(1,2) by blast
qed

lemma inv_sendCommand_accepted:
  assumes inv: "correlatorInv used s" and on: "isConnected s" "socket s \<noteq> None"
    and new: "generateMessageId r \<notin> used"
  shows "correlatorInv (insert (generateMessageId r) used) (sendCommand command parameters r s)"
proof -
  let ?c = "nextCall s"
  let ?i = "generateMessageId r"
  let ?s = "sendCommand command parameters r s"
  have hfresh: "?i \<notin> fst ` set (messageHandlers s)"
    using inv_handler_used [OF inv] new by fastforce
  have tfresh: "?i \<notin> fst ` set (responseTimers s)"
    using inv_timers_used [OF inv] new by blast
  have fields: "messageHandlers ?s = messageHandlers s @ [(?i, ?c)]"
    "responseTimers ?s = responseTimers s @ [(?i, ?c, command)]"
    "nextCall ?s = Suc ?c" "settled ?s = settled s"
    using on hfresh by (auto simp: sendCommand_def Let_def mapSet_fresh)
  have cfresh: "?c \<notin> fst ` set (settled s)"
    using inv_settled_bound [OF inv, of ?c] by auto
  have tb: "?c \<notin> (\<lambda>t. fst (snd t)) ` set (responseTimers s)"
  proof
    assume "?c \<in> (\<lambda>t. fst (snd t)) ` set (responseTimers s)"
    then obtain t where "t \<in> set (responseTimers s)" "fst (snd t) = ?c"
      by auto
    then show False
      using inv_timer_bound [OF inv, of t] by simp
  qed
  have d: "distinct (map fst (messageHandlers s))" "distinct (map fst (responseTimers s))"
    "distinct (map (\<lambda>t. fst (snd t)) (responseTimers s))" "distinct (map fst (settled s))"
    using inv_distinct [OF inv] by simp_all
  have c1: "distinct (map fst (messageHandlers ?s))"
    using d(1) hfresh unfolding fields by simp
  have c2: "distinct (map fst (responseTimers ?s))"
    using d(2) tfresh unfolding fields by simp
  have c3: "distinct (map (\<lambda>t. fst (snd t)) (responseTimers ?s))"
    using d(3) tb unfolding fields by simp
  have c4: "distinct (map fst (settled ?s))"
    using d(4) unfolding fields by simp
  have c5: "fst ` set (responseTimers ?s) \<subseteq> insert ?i used"
    using inv_timers_used [OF inv] unfolding fields by auto
  have c6: "\<forall>i c. (i, c) \<in> set (messageHandlers ?s) \<longrightarrow>
            c \<notin> fst ` set (settled ?s) \<and> (\<exists>cmd. (i, c, cmd) \<in> set (responseTimers ?s))"
  proof (intro allI impI)
    fix j e
    assume "(j, e) \<in> set (messageHandlers ?s)"
    then consider "(j, e) \<in> set (messageHandlers s)" | "j = ?i" "e = ?c"
      unfolding fields by auto
    then show "e \<notin> fst ` set (settled ?s) \<and> (\<exists>cmd. (j, e, cmd) \<in> set (responseTimers ?s))"
    proof cases
      case 1
      obtain cmd where "(j, e, cmd) \<in> set (responseTimers s)"
        using inv_handler_timer [OF inv 1] by blast
      then have "\<exists>cmd. (j, e, cmd) \<in> set (responseTimers ?s)"
        unfolding fields by auto
      then show ?thesis
        using inv_handler_unsettled [OF inv 1] unfolding fields by simp
    next
      case 2
      have "(j, e, command) \<in> set (responseTimers ?s)"
        using 2 unfolding fields by simp
      then show ?thesis
        using cfresh 2 unfolding fields(4) by auto
    qed
  qed
  have c7: "\<forall>t. t \<in> set (responseTimers ?s) \<longrightarrow> fst (snd t) < nextCall ?s"
    using inv_timer_bound [OF inv] unfolding fields by (auto simp: less_Suc_eq)
  have c8: "\<forall>c. c \<in> fst ` set (settled ?s) \<longrightarrow> c < nextCall ?s"
    using inv_settled_bound [OF inv] unfolding fields by (auto simp: less_Suc_eq)
  have c9: "\<forall>c. c < nextCall ?s \<longrightarrow>
            c \<in> fst ` set (settled ?s) \<or>
            (\<exists>i cmd. (i, c, cmd) \<in> set (responseTimers ?s) \<and> (i, c) \<in> set (messageHandlers ?s))"
  proof (intro allI impI)
    fix c
    assume "c < nextCall ?s"
    then consider "c = ?c" | "c < ?c"
      unfolding fields by linarith
    then show "c \<in> fst ` set (settled ?s) \<or>
            (\<exists>i cmd. (i, c, cmd) \<in> set (responseTimers ?s) \<and> (i, c) \<in> set (messageHandlers ?s))"
    proof cases
      case 1
      then show ?thesis unfolding fields by auto
    next
      case 2
      from inv_pending [OF inv this] show ?thesis unfolding fields by auto
    qed
  qed
  show ?thesis
    unfolding correlatorInv_def
    using c1 c2 c3 c4 c5 c6 c7 c8 c9 by blast
qed

lemma inv_handler_by_call:
  assumes inv: "correlatorInv used s"
    and "(i, c) \<in> set (messageHandlers s)" "(j, c) \<in> set (messageHandlers s)"
  shows "j = i"
proof -
  obtain cmd where a: "(i, c, cmd) \<in> set (responseTimers s)"
    using inv_handler_timer [OF inv assms(2)] by blast
  obtain cmd' where b: "(j, c, cmd') \<in> set (responseTimers s)"
    using inv_handler_timer [OF inv assms(3)] by blast
  show ?thesis
    using inv_timer_by_call [OF inv a b] by simp
qed

lemma inv_handler_by_id:
  assumes inv: "correlatorInv used s"
    and "(i, c) \<in> set (messageHandlers s)" "(i, c') \<in> set (messageHandlers s)"
  shows "c' = c"
  using distinct_map_eq [of fst "messageHandlers s" "(i, c)" "(i, c')"]
    inv_distinct [OF inv] assms(2,3) by simp

lemma inv_resolve:
  assumes inv: "correlatorInv used s" and h: "(i, c) \<in> set (messageHandlers s)"
  shows "correlatorInv used
           (s\<lparr>messageHandlers := mapDelete i (messageHandlers s),
              settled := settled s @ [(c, outcome)]\<rparr>)"
proof -
  let ?s = "s\<lparr>messageHandlers := mapDelete i (messageHandlers s),
              settled := settled s @ [(c, outcome)]\<rparr>"
  have fields: "messageHandlers ?s = mapDelete i (messageHandlers s)"
    "responseTimers ?s = responseTimers s"
    "nextCall ?s = nextCall s" "settled ?s = settled s @ [(c, outcome)]"
    by simp_all
  have d: "distinct (map fst (messageHandlers s))" "distinct (map fst (responseTimers s))"
    "distinct (map (\<lambda>t. fst (snd t)) (responseTimers s))" "distinct (map fst (settled s))"
    using inv_distinct [OF inv] by simp_all
  have unsettled: "c \<notin> fst ` set (settled s)"
    by (rule inv_handler_unsettled [OF inv h])
  have c1: "distinct (map fst (messageHandlers ?s))"
    unfolding fields by (rule distinct_mapDelete [OF d(1)])
  have c4: "distinct (map fst (settled ?s))"
    using d(4) unsettled unfolding fields by simp
  have c5: "fst ` set (responseTimers ?s) \<subseteq> used"
    unfolding fields by (rule inv_timers_used [OF inv])
  have c6: "\<forall>j e. (j, e) \<in> set (messageHandlers ?s) \<longrightarrow>
            e \<notin> fst ` set (settled ?s) \<and> (\<exists>cmd. (j, e, cmd) \<in> set (responseTimers ?s))"
  proof (intro allI impI)
    fix j e
    assume "(j, e) \<in> set (messageHandlers ?s)"
    then have je: "(j, e) \<in> set (messageHandlers s)" and ne: "j \<noteq> i"
      unfolding fields by (auto simp: set_mapDelete)
    have "e \<noteq> c"
      using inv_handler_by_call [OF inv h, of j] je ne by auto
    then show "e \<notin> fst ` set (settled ?s) \<and> (\<exists>cmd. (j, e, cmd) \<in> set (responseTimers ?s))"
      using inv_handler_unsettled [OF inv je] inv_handler_timer [OF inv je]
      unfolding fields by auto
  qed
  have c7: "\<forall>t. t \<in> set (responseTimers ?s) \<longrightarrow> fst (snd t) < nextCall ?s"
    using inv_timer_bound [OF inv] unfolding fields by blast
  have c8: "\<forall>e. e \<in> fst ` set (settled ?s) \<longrightarrow> e < nextCall ?s"
    using inv_settled_bound [OF inv] inv_handler_bound [OF inv h] unfolding fields by auto
  have c9: "\<forall>e. e < nextCall ?s \<longrightarrow>
            e \<in> fst ` set (settled ?s) \<or>
            (\<exists>j cmd. (j, e, cmd) \<in> set (responseTimers ?s) \<and> (j, e) \<in> set (messageHandlers ?s))"
  proof (intro allI impI)
    fix e
    assume "e < nextCall ?s"
    then have "e < nextCall s" by simp
    from inv_pending [OF inv this]
    consider "e \<in> fst ` set (settled s)"
      | j cmd where "(j, e, cmd) \<in> set (responseTimers s)" "(j, e) \<in> set (messageHandlers s)"
      by blast
    then show "e \<in> fst ` set (settled ?s) \<or>
            (\<exists>j cmd. (j, e, cmd) \<in> set (responseTimers ?s) \<and> (j, e) \<in> set (messageHandlers ?s))"
    proof cases
      case 1
      then show ?thesis unfolding fields by auto
    next
      case 2
      show ?thesis
      proof (cases "j = i")
        case True
        then have "e = c"
          using inv_handler_by_id [OF inv h, of e] 2(2) by simp
        then show ?thesis unfolding fields by simp
      next
        case False
        then have "(j, e) \<in> set (messageHandlers ?s)"
          using 2(2) unfolding fields by (simp add: set_mapDelete)
        then show ?thesis
          using 2(1) unfolding fields(2) by blast
      qed
    qed
  qed
  show ?thesis
    unfolding correlatorInv_def
    using c1 c4 c5 c6 c7 c8 c9 d(2,3) unfolding fields(2) by blast
qed

lemma find_SomeD: "find P xs = Some x \<Longrightarrow> x \<in> set xs \<and> P x"
  by (induction xs) (auto split: if_splits)

lemma inv_drop_timer:
  assumes inv: "correlatorInv used s" and isSettled: "c \<in> fst ` set (settled s)"
  shows "correlatorInv used
           (s\<lparr>responseTimers := filter (\<lambda>t. fst (snd t) \<noteq> c) (responseTimers s)\<rparr>)"
proof -
  let ?s = "s\<lparr>responseTimers := filter (\<lambda>t. fst (snd t) \<noteq> c) (responseTimers s)\<rparr>"
  have fields: "messageHandlers ?s = messageHandlers s"
    "responseTimers ?s = filter (\<lambda>t. fst (snd t) \<noteq> c) (responseTimers s)"
    "nextCall ?s = nextCall s" "settled ?s = settled s"
    by simp_all
  have d: "distinct (map fst (messageHandlers s))" "distinct (map fst (responseTimers s))"
    "distinct (map (\<lambda>t. fst (snd t)) (responseTimers s))" "distinct (map fst (settled s))"
    using inv_distinct [OF inv] by simp_all
  have c2: "distinct (map fst (responseTimers ?s))"
    unfolding fields using d(2) by (rule distinct_map_filter)
  have c3: "distinct (map (\<lambda>t. fst (snd t)) (responseTimers ?s))"
    unfolding fields using d(3) by (rule distinct_map_filter)
  have c5: "fst ` set (responseTimers ?s) \<subseteq> used"
    using inv_timers_used [OF inv] unfolding fields by auto
  have keep: "(j, e, cmd) \<in> set (responseTimers ?s)"
    if "(j, e) \<in> set (messageHandlers s)" "(j, e, cmd) \<in> set (responseTimers s)" for j e cmd
  proof -
    have "e \<noteq> c"
      using inv_handler_unsettled [OF inv that(1)] isSettled by auto
    then show ?thesis
      using that(2) unfolding fields by simp
  qed
  have c6: "\<forall>j e. (j, e) \<in> set (messageHandlers ?s) \<longrightarrow>
            e \<notin> fst ` set (settled ?s) \<and> (\<exists>cmd. (j, e, cmd) \<in> set (responseTimers ?s))"
  proof (intro allI impI)
    fix j e
    assume "(j, e) \<in> set (messageHandlers ?s)"
    then have je: "(j, e) \<in> set (messageHandlers s)"
      by simp
    obtain cmd where "(j, e, cmd) \<in> set (responseTimers s)"
      using inv_handler_timer [OF inv je] by blast
    then have "\<exists>cmd. (j, e, cmd) \<in> set (responseTimers ?s)"
      using keep [OF je] by blast
    then show "e \<notin> fst ` set (settled ?s) \<and> (\<exists>cmd. (j, e, cmd) \<in> set (responseTimers ?s))"
      using inv_handler_unsettled [OF inv je] unfolding fields(4) by simp
  qed
  have c7: "\<forall>t. t \<in> set (responseTimers ?s) \<longrightarrow> fst (snd t) < nextCall ?s"
    using inv_timer_bound [OF inv] unfolding fields by auto
  have c8: "\<forall>e. e \<in> fst ` set (settled ?s) \<longrightarrow> e < nextCall ?s"
    using inv_settled_bound [OF inv] unfolding fields by blast
  have c9: "\<forall>e. e < nextCall ?s \<longrightarrow>
            e \<in> fst ` set (settled ?s) \<or>
            (\<exists>j cmd. (j, e, cmd) \<in> set (responseTimers ?s) \<and> (j, e) \<in> set (messageHandlers ?s))"
  proof (intro allI impI)
    fix e
    assume "e < nextCall ?s"
    then have "e < nextCall s" by simp
    from inv_pending [OF inv this]
    consider "e \<in> fst ` set (settled s)"
      | j cmd where "(j, e, cmd) \<in> set (responseTimers s)" "(j, e) \<in> set (messageHandlers s)"
      by blast
    then show "e \<in> fst ` set (settled ?s) \<or>
            (\<exists>j cmd. (j, e, cmd) \<in> set (responseTimers ?s) \<and> (j, e) \<in> set (messageHandlers ?s))"
    proof cases
      case 1
      then show ?thesis unfolding fields by simp
    next
      case 2
      have "(j, e, cmd) \<in> set (responseTimers ?s)"
        using keep [OF 2(2) 2(1)] .
      then show ?thesis
        using 2(2) unfolding fields(1) by blast
    qed
  qed
  show ?thesis
    unfolding correlatorInv_def
    using c2 c3 c5 c6 c7 c8 c9 d(1,4) unfolding fields(1,4) by blast
qed

lemma inv_handleIncomingMessage:
  assumes inv: "correlatorInv used s"
  shows "correlatorInv used (handleIncomingMessage parsed s)"
proof (cases parsed)
  case None
  then show ?thesis using inv by (simp add: handleIncomingMessage_def)
next
  case (Some message)
  show ?thesis
  proof (cases "case msg_id message of Some i \<Rightarrow> i \<noteq> [] \<and> mapHas (messageHandlers s) i
                | None \<Rightarrow> False")
    case True
    then obtain i where i: "msg_id message = Some i" "mapHas (messageHandlers s) i"
      by (auto split: option.splits)
    then obtain c where c: "mapGet (messageHandlers s) i = Some c"
      by (auto simp: mapHas_def mapGet_def)
    then have h: "(i, c) \<in> set (messageHandlers s)"
      using inv_distinct [OF inv] by (simp add: mapGet_Some_iff)
    have "handleIncomingMessage parsed s =
        s\<lparr>messageHandlers := mapDelete i (messageHandlers s),
          settled := settled s @ [(c, Resolved message)]\<rparr>"
      using Some True i c by (simp add: handleIncomingMessage_def)
    then show ?thesis
      using inv_resolve [OF inv h] by simp
  next
    case False
    then have same: "messageHandlers (handleIncomingMessage parsed s) = messageHandlers s"
      "responseTimers (handleIncomingMessage parsed s) = responseTimers s"
      "settled (handleIncomingMessage parsed s) = settled s"
      "nextCall (handleIncomingMessage parsed s) = nextCall s"
      using Some by (auto simp: handleIncomingMessage_def split: option.splits)
    show ?thesis
      using inv correlatorInv_cong [OF same] by simp
  qed
qed

lemma inv_responseTimeout:
  assumes inv: "correlatorInv used s"
  shows "correlatorInv used (responseTimeout call s)"
proof (cases "find (\<lambda>t. fst (snd t) = call) (responseTimers s)")
  case None
  then show ?thesis using inv by (simp add: responseTimeout_def)
next
  case (Some t)
  obtain i c cmd where t: "t = (i, c, cmd)"
    by (cases t) auto
  have mem: "(i, call, cmd) \<in> set (responseTimers s)" and c: "c = call"
    using find_SomeD [OF Some] t by auto
  let ?drop = "filter (\<lambda>t. fst (snd t) \<noteq> call) (responseTimers s)"
  show ?thesis
  proof (cases "mapHas (messageHandlers s) i")
    case True
    then obtain e where "mapGet (messageHandlers s) i = Some e"
      by (auto simp: mapHas_def mapGet_def)
    then have h: "(i, e) \<in> set (messageHandlers s)"
      using inv_distinct [OF inv] by (simp add: mapGet_Some_iff)
    obtain cmd' where "(i, e, cmd') \<in> set (responseTimers s)"
      using inv_handler_timer [OF inv h] by blast
    then have "e = call"
      using inv_timer_by_id [OF inv mem] by simp
    then have h: "(i, call) \<in> set (messageHandlers s)"
      using h by simp
    let ?s1 = "s\<lparr>messageHandlers := mapDelete i (messageHandlers s),
                  settled := settled s @ [(call, Rejected (''Command timeout: '' @ cmd))]\<rparr>"
    have inv1: "correlatorInv used ?s1"
      by (rule inv_resolve [OF inv h])
    have "correlatorInv used
        (?s1\<lparr>responseTimers := filter (\<lambda>t. fst (snd t) \<noteq> call) (responseTimers ?s1)\<rparr>)"
      by (rule inv_drop_timer [OF inv1]) simp
    moreover have "responseTimeout call s =
        ?s1\<lparr>responseTimers := filter (\<lambda>t. fst (snd t) \<noteq> call) (responseTimers ?s1)\<rparr>"
      using Some t True by (simp add: responseTimeout_def)
    ultimately show ?thesis by simp
  next
    case False
    have "call < nextCall s"
      using inv_timer_bound [OF inv mem] by simp
    from inv_pending [OF inv this] have "call \<in> fst ` set (settled s)"
    proof
      assume "call \<in> fst ` set (settled s)"
      then show ?thesis .
    next
      assume "\<exists>j cmd'. (j, call, cmd') \<in> set (responseTimers s) \<and>
                (j, call) \<in> set (messageHandlers s)"
      then obtain j cmd' where j: "(j, call, cmd') \<in> set (responseTimers s)"
        "(j, call) \<in> set (messageHandlers s)"
        by blast
      have "j = i"
        using inv_timer_by_call [OF inv mem j(1)] by simp
      then have "mapHas (messageHandlers s) i"
        using j(2) by (force simp: mapHas_iff)
      then show ?thesis using False by simp
    qed
    then have "correlatorInv used (s\<lparr>responseTimers := ?drop\<rparr>)"
      by (rule inv_drop_timer [OF inv])
    moreover have "responseTimeout call s = s\<lparr>responseTimers := ?drop\<rparr>"
      using Some t False by (simp add: responseTimeout_def)
    ultimately show ?thesis by simp
  qed
qed

lemma transport_fields:
  "messageHandlers (connect s) = messageHandlers s \<and> responseTimers (connect s) = responseTimers s \<and>
   settled (connect s) = settled s \<and> nextCall (connect s) = nextCall s"
  "messageHandlers (disconnect s) = messageHandlers s \<and> responseTimers (disconnect s) = responseTimers s \<and>
   settled (disconnect s) = settled s \<and> nextCall (disconnect s) = nextCall s"
  "messageHandlers (onConnect s) = messageHandlers s \<and> responseTimers (onConnect s) = responseTimers s \<and>
   settled (onConnect s) = settled s \<and> nextCall (onConnect s) = nextCall s"
  "messageHandlers (onError s) = messageHandlers s \<and> responseTimers (onError s) = responseTimers s \<and>
   settled (onError s) = settled s \<and> nextCall (onError s) = nextCall s"
  "messageHandlers (onClose s) = messageHandlers s \<and> responseTimers (onClose s) = responseTimers s \<and>
   settled (onClose s) = settled s \<and> nextCall (onClose s) = nextCall s"
  "messageHandlers (connectTimeout s) = messageHandlers s \<and>
   responseTimers (connectTimeout s) = responseTimers s \<and>
   settled (connectTimeout s) = settled s \<and> nextCall (connectTimeout s) = nextCall s"
  "messageHandlers (reconnectTimeout s) = messageHandlers s \<and>
   responseTimers (reconnectTimeout s) = responseTimers s \<and>
   settled (reconnectTimeout s) = settled s \<and> nextCall (reconnectTimeout s) = nextCall s"
  "messageHandlers (setSocket k st s) = messageHandlers s \<and>
   responseTimers (setSocket k st s) = responseTimers s \<and>
   settled (setSocket k st s) = settled s \<and> nextCall (setSocket k st s) = nextCall s"
  by (simp_all add: connect_def disconnect_def onConnect_def onError_def onClose_def
      scheduleReconnect_def connectTimeout_def reconnectTimeout_def setSocket_def Let_def
      split: option.splits)

lemma inv_transport:
  assumes "correlatorInv used s"
  shows "correlatorInv used (connect s)" "correlatorInv used (disconnect s)"
    "correlatorInv used (onConnect s)" "correlatorInv used (onError s)"
    "correlatorInv used (onClose s)" "correlatorInv used (connectTimeout s)"
    "correlatorInv used (reconnectTimeout s)" "correlatorInv used (setSocket k st s)"
  using assms by (simp_all add: correlatorInv_def transport_fields)

lemma inv_ipcStep:
  assumes inv: "correlatorInv used s" and new: "set (sentIds [e]) \<inter> used = {}"
  shows "correlatorInv (used \<union> set (sentIds [e])) (ipcStep e s)"
proof (cases e)
  case (CallSendCommand command parameters r)
  show ?thesis
  proof (cases "isConnected s \<and> socket s \<noteq> None")
    case True
    then show ?thesis
      using inv_sendCommand_accepted [OF inv, of r command parameters] new CallSendCommand
      by simp
  next
    case False
    then have "correlatorInv used (sendCommand command parameters r s)"
      using inv_sendCommand_rejected [OF inv] by blast
    then have "correlatorInv (insert (generateMessageId r) used) (sendCommand command parameters r s)"
      by (rule correlatorInv_mono) blast
    then show ?thesis
      using CallSendCommand by simp
  qed
next
  case (SocketData k parsed)
  then show ?thesis using inv by (simp add: inv_handleIncomingMessage)
next
  case (ResponseTimeout call)
  then show ?thesis using inv by (simp add: inv_responseTimeout)
next
  case ConnectTimeout
  have "correlatorInv used (s\<lparr>connectTimers := connectTimers s - 1\<rparr>)"
    using inv by (simp add: correlatorInv_def)
  then show ?thesis
    using ConnectTimeout inv by (simp add: inv_transport)
qed (use inv in \<open>simp_all add: inv_transport\<close>)

lemma sentIds_Cons: "sentIds (e # es) = sentIds [e] @ sentIds es"
  by (cases e) simp_all

lemma inv_run:
  "correlatorInv used s \<Longrightarrow> distinct (sentIds es) \<Longrightarrow> set (sentIds es) \<inter> used = {} \<Longrightarrow>
   correlatorInv (used \<union> set (sentIds es)) (run es s)"
proof (induction es arbitrary: s used)
  case Nil
  then show ?case by simp
next
  case (Cons e es)
  have split: "sentIds (e # es) = sentIds [e] @ sentIds es"
    by (rule sentIds_Cons)
  have a: "set (sentIds [e]) \<inter> used = {}"
    using Cons.prems(3) unfolding split by auto
  have step: "correlatorInv (used \<union> set (sentIds [e])) (ipcStep e s)"
    by (rule inv_ipcStep [OF Cons.prems(1) a])
  have d: "distinct (sentIds es)" and b: "set (sentIds es) \<inter> (used \<union> set (sentIds [e])) = {}"
    using Cons.prems(2,3) unfolding split by auto
  have "correlatorInv (used \<union> set (sentIds [e]) \<union> set (sentIds es)) (run es (ipcStep e s))"
    by (rule Cons.IH [OF step d b])
  then show ?case
    unfolding split by (simp add: Un_assoc)
qed

lemma reachable_inv:
  "distinct (sentIds inputs) \<Longrightarrow>
   correlatorInv (set (sentIds inputs)) (run inputs (newUnityIPC projectPath))"
  using inv_run [of "{}" "newUnityIPC projectPath" inputs] correlatorInv_new [of "{}" projectPath]
  by simp

lemma timer_fired_settled:
  assumes inv: "correlatorInv used s" and c: "call < nextCall s"
  shows "call \<in> fst ` set (settled (responseTimeout call s))"
proof -
  let ?s = "responseTimeout call s"
  have inv': "correlatorInv used ?s"
    by (rule inv_responseTimeout [OF inv])
  have same: "nextCall ?s = nextCall s"
    by (simp add: responseTimeout_def Let_def split: option.splits prod.splits)
  have gone: "\<forall>t \<in> set (responseTimers ?s). fst (snd t) \<noteq> call"
  proof (cases "find (\<lambda>t. fst (snd t) = call) (responseTimers s)")
    case None
    then have "responseTimeout call s = s"
      by (simp add: responseTimeout_def)
    moreover have "\<forall>t \<in> set (responseTimers s). fst (snd t) \<noteq> call"
      using None by (auto simp: find_None_iff)
    ultimately show ?thesis
      by simp
  next
    case (Some t)
    then show ?thesis
      by (cases t) (auto simp: responseTimeout_def Let_def)
  qed
  from inv_pending [OF inv', of call] c same gone show ?thesis
    by fastforce
qed

lemma mapHas_mapDelete: "\<not> mapHas (mapDelete k m) k"
  by (simp add: mapHas_iff set_mapDelete image_iff)

lemma first_match_resolves:
  "msg_id message = Some i \<Longrightarrow> i \<noteq> [] \<Longrightarrow> mapGet (messageHandlers s) i = Some c \<Longrightarrow>
   handleIncomingMessage (Some message) s =
     s\<lparr>messageHandlers := mapDelete i (messageHandlers s),
       settled := settled s @ [(c, Resolved message)]\<rparr>"
  by (simp add: handleIncomingMessage_def mapHas_def mapGet_def)

lemma unmatched_settled:
  "\<not> (case msg_id message of Some i \<Rightarrow> i \<noteq> [] \<and> mapHas (messageHandlers s) i | None \<Rightarrow> False) \<Longrightarrow>
   settled (handleIncomingMessage (Some message) s) = settled s \<and>
   messageHandlers (handleIncomingMessage (Some message) s) = messageHandlers s"
  by (auto simp: handleIncomingMessage_def split: option.splits)

lemma duplicate_ignored:
  assumes "msg_id duplicate = msg_id message"
  shows "settled (handleIncomingMessage (Some duplicate) (handleIncomingMessage (Some message) s)) =
         settled (handleIncomingMessage (Some message) s)"
proof (cases "case msg_id message of Some i \<Rightarrow> i \<noteq> [] \<and> mapHas (messageHandlers s) i
              | None \<Rightarrow> False")
  case True
  then obtain i where i: "msg_id message = Some i" "i \<noteq> []" "mapHas (messageHandlers s) i"
    by (auto split: option.splits)
  then obtain c where c: "mapGet (messageHandlers s) i = Some c"
    by (auto simp: mapHas_def mapGet_def)
  let ?s = "handleIncomingMessage (Some message) s"
  have "messageHandlers ?s = mapDelete i (messageHandlers s)"
    using first_match_resolves [OF i(1,2) c] by simp
  then have "\<not> mapHas (messageHandlers ?s) i"
    by (simp add: mapHas_mapDelete)
  then have "\<not> (case msg_id duplicate of Some i \<Rightarrow> i \<noteq> [] \<and> mapHas (messageHandlers ?s) i
                 | None \<Rightarrow> False)"
    using assms i(1) by simp
  then show ?thesis
    using unmatched_settled by blast
next
  case False
  let ?s = "handleIncomingMessage (Some message) s"
  have h: "messageHandlers ?s = messageHandlers s"
    using unmatched_settled [OF False] by simp
  have "\<not> (case msg_id duplicate of Some i \<Rightarrow> i \<noteq> [] \<and> mapHas (messageHandlers ?s) i
                 | None \<Rightarrow> False)"
    unfolding h assms by (rule False)
  then show ?thesis
    using unmatched_settled by blast
qed

text \<open>
  Claim C9. Take any sequence of calls, socket events and timer expiries on a new instance,
  the identifiers drawn by \<open>sendCommand\<close> being pairwise different. In the state reached, no
  call has been settled twice (so never both resolved and timed out, and never resolved by two
  messages); every call made is either settled or still has its handler registered and its
  timer pending, and once its timer fires it is settled; and a second message carrying the
  identifier of a message just handled settles nothing.
\<close>

theorem every_request_settles_once:
  assumes "distinct (sentIds inputs)" and "s = run inputs (newUnityIPC projectPath)"
  shows "distinct (map fst (settled s))
     \<and> (\<forall>call < nextCall s.
          call \<in> fst ` set (settled s) \<or>
          (\<exists>messageId command. (messageId, call, command) \<in> set (responseTimers s) \<and>
              mapGet (messageHandlers s) messageId = Some call))
     \<and> (\<forall>call < nextCall s. call \<in> fst ` set (settled (responseTimeout call s)))
     \<and> (\<forall>call. call \<in> fst ` set (settled s) \<longrightarrow> call < nextCall s)
     \<and> (msg_id duplicate = msg_id message \<longrightarrow>
          settled (handleIncomingMessage (Some duplicate) (handleIncomingMessage (Some message) s)) =
          settled (handleIncomingMessage (Some message) s))"
proof -
  have inv: "correlatorInv (set (sentIds inputs)) s"
    unfolding assms(2) by (rule reachable_inv [OF assms(1)])
  have once: "distinct (map fst (settled s))"
    using inv_distinct [OF inv] by simp
  have pending: "\<forall>call < nextCall s.
          call \<in> fst ` set (settled s) \<or>
          (\<exists>messageId command. (messageId, call, command) \<in> set (responseTimers s) \<and>
              mapGet (messageHandlers s) messageId = Some call)"
  proof (intro allI impI)
    fix call
    assume "call < nextCall s"
    from inv_pending [OF inv this]
    show "call \<in> fst ` set (settled s) \<or>
          (\<exists>messageId command. (messageId, call, command) \<in> set (responseTimers s) \<and>
              mapGet (messageHandlers s) messageId = Some call)"
      using inv_distinct [OF inv] by (auto simp: mapGet_Some_iff)
  qed
  have fired: "\<forall>call < nextCall s. call \<in> fst ` set (settled (responseTimeout call s))"
    using timer_fired_settled [OF inv] by blast
  have bound: "\<forall>call. call \<in> fst ` set (settled s) \<longrightarrow> call < nextCall s"
    using inv_settled_bound [OF inv] by blast
  show ?thesis
    using once pending fired bound duplicate_ignored by blast
qed

lemma generateMessageId_1: "generateMessageId 1 = ''0000000000000001''"
  by code_simp

lemma generateMessageId_2: "generateMessageId 2 = ''0000000000000002''"
  by code_simp

lemmas ipc_eval =
  newUnityIPC_def connect_def disconnect_def destroy_def scheduleReconnect_def sendCommand_def
  responseTimeout_def handleIncomingMessage_def onConnect_def onError_def onClose_def
  connectTimeout_def reconnectTimeout_def socketIs_def setSocket_def mapHas_def mapGet_def
  mapDelete_def Let_def exampleResponse_def generateMessageId_1 generateMessageId_2

lemma exampleTrace_settled:
  "settled (run exampleTrace (newUnityIPC ''/proj/A'')) =
     [(1, Resolved (exampleResponse 2)), (0, Rejected ''Command timeout: ping'')]"
  by (simp add: exampleTrace_def ipc_eval)

theorem every_request_settles_once_witness:
  "distinct (sentIds exampleTrace)
   \<and> settled (run exampleTrace (newUnityIPC ''/proj/A'')) =
       [(1, Resolved (exampleResponse 2)), (0, Rejected ''Command timeout: ping'')]
   \<and> distinct (map fst (settled (run exampleTrace (newUnityIPC ''/proj/A''))))
   \<and> nextCall (run exampleTrace (newUnityIPC ''/proj/A'')) = 2"
proof -
  have d: "distinct (sentIds exampleTrace)"
    by (simp add: exampleTrace_def generateMessageId_1 generateMessageId_2)
  have n: "nextCall (run exampleTrace (newUnityIPC ''/proj/A'')) = 2"
    by (simp add: exampleTrace_def ipc_eval)
  from every_request_settles_once [OF d refl, of "''/proj/A''"]
  have "distinct (map fst (settled (run exampleTrace (newUnityIPC ''/proj/A''))))"
    by blast
  then show ?thesis
    using d n exampleTrace_settled by blast
qed

lemma sendCommand_connected:
  assumes "isConnected s" "socket s \<noteq> None"
  shows "isConnected (sendCommand c p r s)" "socket (sendCommand c p r s) = socket s"
    "sockets (sendCommand c p r s) = sockets s" "settled (sendCommand c p r s) = settled s"
    "nextCall (sendCommand c p r s) = Suc (nextCall s)"
    "messageHandlers (sendCommand c p r s) =
       mapSet (generateMessageId r) (nextCall s) (messageHandlers s)"
  using assms by (auto simp: sendCommand_def Let_def)

lemma run_sendAll_frame:
  "isConnected s \<Longrightarrow> socket s \<noteq> None \<Longrightarrow>
   isConnected (run (sendAll reqs) s) \<and> socket (run (sendAll reqs) s) = socket s \<and>
   sockets (run (sendAll reqs) s) = sockets s \<and> settled (run (sendAll reqs) s) = settled s \<and>
   nextCall (run (sendAll reqs) s) = nextCall s + length reqs \<and>
   (\<forall>i. i \<notin> set (map requestId reqs) \<longrightarrow>
      mapGet (messageHandlers (run (sendAll reqs) s)) i = mapGet (messageHandlers s) i)"
proof (induction reqs arbitrary: s)
  case Nil
  then show ?case by (simp add: sendAll_def)
next
  case (Cons q reqs)
  let ?s = "sendCommand (fst q) (fst (snd q)) (snd (snd q)) s"
  note sc = sendCommand_connected [OF Cons.prems, of "fst q" "fst (snd q)" "snd (snd q)"]
  have run: "run (sendAll (q # reqs)) s = run (sendAll reqs) ?s"
    by (simp add: sendAll_def)
  have on: "isConnected ?s" "socket ?s \<noteq> None"
    using sc Cons.prems by simp_all
  note ih = Cons.IH [OF on]
  have "mapGet (messageHandlers (run (sendAll reqs) ?s)) i = mapGet (messageHandlers s) i"
    if "i \<notin> set (map requestId (q # reqs))" for i
  proof -
    have "mapGet (messageHandlers (run (sendAll reqs) ?s)) i = mapGet (messageHandlers ?s) i"
      using ih that by simp
    also have "\<dots> = mapGet (messageHandlers s) i"
      using that by (simp add: sc(6) mapGet_mapSet requestId_def)
    finally show ?thesis .
  qed
  then show ?case
    unfolding run using ih sc by simp
qed

lemma run_sendAll_handlers:
  "isConnected s \<Longrightarrow> socket s \<noteq> None \<Longrightarrow> distinct (map requestId reqs) \<Longrightarrow>
   n < length reqs \<Longrightarrow>
   mapGet (messageHandlers (run (sendAll reqs) s)) (requestId (reqs ! n)) = Some (nextCall s + n)"
proof (induction reqs arbitrary: s n)
  case Nil
  then show ?case by simp
next
  case (Cons q reqs)
  let ?s = "sendCommand (fst q) (fst (snd q)) (snd (snd q)) s"
  note sc = sendCommand_connected [OF Cons.prems(1,2), of "fst q" "fst (snd q)" "snd (snd q)"]
  have run: "run (sendAll (q # reqs)) s = run (sendAll reqs) ?s"
    by (simp add: sendAll_def)
  have on: "isConnected ?s" "socket ?s \<noteq> None"
    using sc Cons.prems by simp_all
  have d: "distinct (map requestId reqs)" and fresh: "requestId q \<notin> set (map requestId reqs)"
    using Cons.prems(3) by simp_all
  show ?case
  proof (cases n)
    case 0
    have "mapGet (messageHandlers (run (sendAll reqs) ?s)) (requestId q) =
        mapGet (messageHandlers ?s) (requestId q)"
      using run_sendAll_frame [OF on, of reqs] fresh by blast
    also have "\<dots> = Some (nextCall s)"
      by (simp add: sc(6) mapGet_mapSet requestId_def)
    finally show ?thesis
      unfolding run using 0 by simp
  next
    case (Suc m)
    then have m: "m < length reqs"
      using Cons.prems(4) by simp
    have "mapGet (messageHandlers (run (sendAll reqs) ?s)) (requestId (reqs ! m)) =
        Some (nextCall ?s + m)"
      by (rule Cons.IH [OF on d m])
    then show ?thesis
      unfolding run using Suc sc(5) by simp
  qed
qed

lemma handleIncomingMessage_sockets:
  "sockets (handleIncomingMessage parsed s) = sockets s"
  by (simp add: handleIncomingMessage_def Let_def split: option.splits)

lemma run_arrive_settled:
  "socketIs t k SockOpen \<Longrightarrow> distinct (map msg_id rs) \<Longrightarrow>
   (\<forall>r \<in> set rs. \<exists>i. msg_id r = Some i \<and> i \<noteq> [] \<and> mapGet (messageHandlers t) i \<noteq> None) \<Longrightarrow>
   settled (run (arrive k rs) t) =
     settled t @ map (\<lambda>r. (the (mapGet (messageHandlers t) (the (msg_id r))), Resolved r)) rs"
proof (induction rs arbitrary: t)
  case Nil
  then show ?case by (simp add: arrive_def)
next
  case (Cons r rs)
  have "\<exists>i c. msg_id r = Some i \<and> i \<noteq> [] \<and> mapGet (messageHandlers t) i = Some c"
    using Cons.prems(3) by auto
  then obtain i c where i: "msg_id r = Some i" "i \<noteq> []" "mapGet (messageHandlers t) i = Some c"
    by blast
  let ?t = "t\<lparr>messageHandlers := mapDelete i (messageHandlers t),
              settled := settled t @ [(c, Resolved r)]\<rparr>"
  have step: "ipcStep (SocketData k (Some r)) t = ?t"
    using Cons.prems(1) first_match_resolves [OF i] by simp
  have run: "run (arrive k (r # rs)) t = run (arrive k rs) ?t"
    using step by (simp add: arrive_def)
  have open': "socketIs ?t k SockOpen"
    using Cons.prems(1) by (simp add: socketIs_def)
  have d: "distinct (map msg_id rs)" and fresh: "msg_id r \<notin> set (map msg_id rs)"
    using Cons.prems(2) by simp_all
  have same: "mapGet (messageHandlers ?t) (the (msg_id r')) = mapGet (messageHandlers t) (the (msg_id r'))"
    if mem: "r' \<in> set rs" for r'
  proof -
    have ne: "msg_id r' \<noteq> Some i"
      using fresh mem i(1) by force
    have "\<exists>j. msg_id r' = Some j"
      using Cons.prems(3) mem by auto
    then obtain j where "msg_id r' = Some j"
      by blast
    then show ?thesis
      using ne by (simp add: mapGet_mapDelete)
  qed
  have pre: "\<forall>r' \<in> set rs. \<exists>j. msg_id r' = Some j \<and> j \<noteq> [] \<and> mapGet (messageHandlers ?t) j \<noteq> None"
  proof
    fix r'
    assume r': "r' \<in> set rs"
    then have "\<exists>j. msg_id r' = Some j \<and> j \<noteq> [] \<and> mapGet (messageHandlers t) j \<noteq> None"
      using Cons.prems(3) by auto
    then obtain j where j: "msg_id r' = Some j" "j \<noteq> []" "mapGet (messageHandlers t) j \<noteq> None"
      by blast
    then show "\<exists>j. msg_id r' = Some j \<and> j \<noteq> [] \<and> mapGet (messageHandlers ?t) j \<noteq> None"
      using same [OF r'] by simp
  qed
  have "settled (run (arrive k rs) ?t) =
      settled ?t @ map (\<lambda>r. (the (mapGet (messageHandlers ?t) (the (msg_id r))), Resolved r)) rs"
    by (rule Cons.IH [OF open' d pre])
  also have "map (\<lambda>r. (the (mapGet (messageHandlers ?t) (the (msg_id r))), Resolved r)) rs =
      map (\<lambda>r. (the (mapGet (messageHandlers t) (the (msg_id r))), Resolved r)) rs"
    using same by (intro map_cong) simp_all
  finally show ?case
    unfolding run using i by simp
qed

lemma filter_distinct_key:
  "distinct (map f xs) \<Longrightarrow> x \<in> set xs \<Longrightarrow> filter (\<lambda>y. f y = f x) xs = [x]"
proof (induction xs)
  case Nil
  then show ?case by simp
next
  case (Cons a xs)
  show ?case
  proof (cases "a = x")
    case True
    have "f x \<notin> f ` set xs"
      using Cons.prems(1) True by simp
    then have "\<forall>y \<in> set xs. f y \<noteq> f x"
      by (metis image_eqI)
    then have "filter (\<lambda>y. f y = f x) xs = []"
      by (simp add: filter_empty_conv)
    then show ?thesis using True by simp
  next
    case False
    then have x: "x \<in> set xs"
      using Cons.prems(2) by simp
    have "f a \<noteq> f x"
      using Cons.prems(1) x by force
    then show ?thesis
      using Cons.IH x Cons.prems(1) by simp
  qed
qed

text \<open>
  Claim C1. On a connected instance, let any number of calls of \<open>sendCommand\<close> be made whose
  identifiers are pairwise different, and let the responses then arrive on the socket in any
  order, one response for each identifier. Then for every call, what has been logged for it
  since the calls were made is exactly one entry: resolved with the response that bears the
  identifier of that call.
\<close>

theorem responses_matched_by_identifier:
  assumes on: "isConnected s" "socket s = Some k" "socketIs s k SockOpen"
    and ids: "distinct (map requestId reqs)"
    and rsd: "distinct (map msg_id rs)"
    and cover: "set (map msg_id rs) = set (map (\<lambda>q. Some (requestId q)) reqs)"
    and fin: "s' = run (arrive k rs) (run (sendAll reqs) s)"
    and n: "n < length reqs"
  shows "\<exists>r \<in> set rs. msg_id r = Some (requestId (reqs ! n)) \<and>
           filter (\<lambda>e. fst e = nextCall s + n) (drop (length (settled s)) (settled s')) =
             [(nextCall s + n, Resolved r)]"
proof -
  let ?t = "run (sendAll reqs) s"
  let ?g = "\<lambda>r. (the (mapGet (messageHandlers ?t) (the (msg_id r))), Resolved r)"
  have sock: "socket s \<noteq> None"
    using on(2) by simp
  note frame = run_sendAll_frame [OF on(1) sock, of reqs]
  have open': "socketIs ?t k SockOpen"
    using on(3) frame by (simp add: socketIs_def)
  have handler: "mapGet (messageHandlers ?t) (requestId (reqs ! m)) = Some (nextCall s + m)"
    if "m < length reqs" for m
    by (rule run_sendAll_handlers [OF on(1) sock ids that])
  have index: "\<exists>m < length reqs. msg_id r = Some (requestId (reqs ! m))" if "r \<in> set rs" for r
  proof -
    have "msg_id r \<in> set (map msg_id rs)"
      using that by simp
    then have "msg_id r \<in> set (map (\<lambda>q. Some (requestId q)) reqs)"
      unfolding cover .
    then obtain m where "m < length (map (\<lambda>q. Some (requestId q)) reqs)"
      "map (\<lambda>q. Some (requestId q)) reqs ! m = msg_id r"
      unfolding in_set_conv_nth by blast
    then have "m < length reqs \<and> msg_id r = Some (requestId (reqs ! m))"
      by simp
    then show ?thesis
      by blast
  qed
  have pre: "\<forall>r \<in> set rs. \<exists>i. msg_id r = Some i \<and> i \<noteq> [] \<and>
      mapGet (messageHandlers ?t) i \<noteq> None"
  proof
    fix r
    assume "r \<in> set rs"
    then obtain m where m: "m < length reqs" "msg_id r = Some (requestId (reqs ! m))"
      using index by blast
    show "\<exists>i. msg_id r = Some i \<and> i \<noteq> [] \<and> mapGet (messageHandlers ?t) i \<noteq> None"
      using m(2) handler [OF m(1)] by (simp add: requestId_def generateMessageId_nonempty)
  qed
  have log: "settled s' = settled s @ map ?g rs"
    using run_arrive_settled [OF open' rsd pre] frame unfolding fin by simp
  have key: "(fst (?g r) = nextCall s + n) = (msg_id r = msg_id x)"
    if r: "r \<in> set rs" and x: "msg_id x = Some (requestId (reqs ! n))" for r x
  proof -
    obtain m where m: "m < length reqs" "msg_id r = Some (requestId (reqs ! m))"
      using index [OF r] by blast
    have "(requestId (reqs ! m) = requestId (reqs ! n)) = (m = n)"
      using nth_eq_iff_index_eq [OF ids, of m n] m(1) n by simp
    then show ?thesis
      using m(2) handler [OF m(1)] x by auto
  qed
  have "map (\<lambda>q. Some (requestId q)) reqs ! n \<in> set (map (\<lambda>q. Some (requestId q)) reqs)"
    using n by (intro nth_mem) simp
  then have "Some (requestId (reqs ! n)) \<in> set (map msg_id rs)"
    unfolding cover using n by simp
  then have "Some (requestId (reqs ! n)) \<in> msg_id ` set rs"
    by simp
  then obtain x where x: "x \<in> set rs" "msg_id x = Some (requestId (reqs ! n))"
    unfolding image_iff by metis
  have "filter (\<lambda>e. fst e = nextCall s + n) (drop (length (settled s)) (settled s')) =
      map ?g (filter (\<lambda>r. fst (?g r) = nextCall s + n) rs)"
    unfolding log by (simp add: filter_map comp_def)
  also have "filter (\<lambda>r. fst (?g r) = nextCall s + n) rs = filter (\<lambda>r. msg_id r = msg_id x) rs"
    using key [OF _ x(2)] by (intro filter_cong) simp_all
  also have "\<dots> = [x]"
    by (rule filter_distinct_key [OF rsd x(1)])
  finally have "filter (\<lambda>e. fst e = nextCall s + n) (drop (length (settled s)) (settled s')) =
      [(nextCall s + n, Resolved x)]"
    using x(2) handler [OF n] by simp
  then show ?thesis
    using x by blast
qed

lemma exampleConnected_fields:
  "isConnected exampleConnected" "socket exampleConnected = Some 0"
  "socketIs exampleConnected 0 SockOpen" "nextCall exampleConnected = 0"
  "settled exampleConnected = []"
  by (simp_all add: exampleConnected_def ipc_eval)

lemma exampleRequests_ids:
  "map requestId exampleRequests = [''0000000000000001'', ''0000000000000002'']"
  by (simp add: exampleRequests_def requestId_def generateMessageId_1 generateMessageId_2)

lemma exampleResponses_ids:
  "map msg_id exampleResponses = [Some ''0000000000000002'', Some ''0000000000000001'']"
  by (simp add: exampleResponses_def exampleResponse_def generateMessageId_1 generateMessageId_2)

theorem responses_matched_by_identifier_witness:
  "isConnected exampleConnected \<and> socket exampleConnected = Some 0
   \<and> socketIs exampleConnected 0 SockOpen
   \<and> distinct (map requestId exampleRequests) \<and> distinct (map msg_id exampleResponses)
   \<and> set (map msg_id exampleResponses) = set (map (\<lambda>q. Some (requestId q)) exampleRequests)
   \<and> (0::nat) < length exampleRequests
   \<and> (\<exists>r \<in> set exampleResponses. msg_id r = Some (requestId (exampleRequests ! 0)) \<and>
         filter (\<lambda>e. fst e = nextCall exampleConnected + 0)
           (drop (length (settled exampleConnected))
              (settled (run (arrive 0 exampleResponses)
                 (run (sendAll exampleRequests) exampleConnected)))) =
         [(nextCall exampleConnected + 0, Resolved r)])
   \<and> settled (run (arrive 0 exampleResponses) (run (sendAll exampleRequests) exampleConnected)) =
       [(1, Resolved (exampleResponse 2)), (0, Resolved (exampleResponse 1))]"
proof -
  have d1: "distinct (map requestId exampleRequests)"
    by (simp add: exampleRequests_ids)
  have d2: "distinct (map msg_id exampleResponses)"
    by (simp add: exampleResponses_ids)
  have cover: "set (map msg_id exampleResponses) =
      set (map (\<lambda>q. Some (requestId q)) exampleRequests)"
    using exampleRequests_ids unfolding exampleResponses_ids
    by (auto simp: exampleRequests_def)
  have n: "(0::nat) < length exampleRequests"
    by (simp add: exampleRequests_def)
  note t = responses_matched_by_identifier
    [OF exampleConnected_fields(1,2,3) d1 d2 cover refl n]
  have log: "settled (run (arrive 0 exampleResponses) (run (sendAll exampleRequests) exampleConnected)) =
       [(1, Resolved (exampleResponse 2)), (0, Resolved (exampleResponse 1))]"
    by (simp add: exampleConnected_def exampleRequests_def exampleResponses_def sendAll_def
        arrive_def ipc_eval)
  show ?thesis
    using t d1 d2 cover n log exampleConnected_fields(1,2,3) by blast
qed

subsection \<open>Closing the transport\<close>

text \<open>
  Claim C2, as the code has it. The \<open>close\<close> listener (and likewise \<open>disconnect\<close>) leaves
  every handler and every response timer registered and settles no request: a request that
  is pending when the transport closes stays pending. When its own timer fires after the
  close it is rejected with \<open>Command timeout\<close> and the name of its command.
\<close>

theorem close_leaves_requests_pending:
  "messageHandlers (ipcStep (SocketClose k) s) = messageHandlers s
   \<and> responseTimers (ipcStep (SocketClose k) s) = responseTimers s
   \<and> settled (ipcStep (SocketClose k) s) = settled s
   \<and> messageHandlers (ipcStep CallDisconnect s) = messageHandlers s
   \<and> responseTimers (ipcStep CallDisconnect s) = responseTimers s
   \<and> settled (ipcStep CallDisconnect s) = settled s
   \<and> (find (\<lambda>t. fst (snd t) = call) (responseTimers s) = Some (messageId, call, command) \<and>
       mapHas (messageHandlers s) messageId \<longrightarrow>
       settled (ipcStep (ResponseTimeout call) (ipcStep (SocketClose k) s)) =
         settled s @ [(call, Rejected (''Command timeout: '' @ command))])"
  by (simp add: onClose_def scheduleReconnect_def setSocket_def disconnect_def Let_def
      responseTimeout_def split: option.splits)

lemma examplePending_fields:
  "find (\<lambda>t. fst (snd t) = 0) (responseTimers examplePending) = Some (''0000000000000001'', 0, ''ping'')"
  "mapHas (messageHandlers examplePending) ''0000000000000001''"
  "settled examplePending = []" "socketIs examplePending 0 SockDestroyed"
  by (simp_all add: examplePending_def ipc_eval)

theorem close_leaves_requests_pending_witness:
  "find (\<lambda>t. fst (snd t) = 0) (responseTimers examplePending) =
     Some (''0000000000000001'', 0, ''ping'')
   \<and> mapHas (messageHandlers examplePending) ''0000000000000001''
   \<and> settled (ipcStep (SocketClose 0) examplePending) = []
   \<and> settled (ipcStep (ResponseTimeout 0) (ipcStep (SocketClose 0) examplePending)) =
       [(0, Rejected ''Command timeout: ping'')]"
  using close_leaves_requests_pending [of 0 examplePending 0 "''0000000000000001''" "''ping''"]
    examplePending_fields(1,2,3)
  by simp

text \<open>
  A request is pending, the peer ends the stream and \<open>close\<close> is delivered: the instance
  has emitted \<open>disconnected\<close>, and the request still has its handler and its timer and is
  not settled.
\<close>

theorem close_fails_pending_counterexample:
  "emitted (ipcStep (SocketClose 0) examplePending) = [EmitConnected, EmitDisconnected]
   \<and> \<not> isConnected (ipcStep (SocketClose 0) examplePending)
   \<and> mapHas (messageHandlers (ipcStep (SocketClose 0) examplePending)) (generateMessageId 1)
   \<and> responseTimers (ipcStep (SocketClose 0) examplePending) = [(generateMessageId 1, 0, ''ping'')]
   \<and> settled (ipcStep (SocketClose 0) examplePending) = []"
  by (simp add: examplePending_def ipc_eval)

text \<open>\<open>disconnect\<close> itself cancels a pending reconnect timer, sets none, and doing it
  twice is the same as doing it once.\<close>

lemma disconnect_cancels_timer: "\<not> reconnectTimer (disconnect s) \<and> socket (disconnect s) = None"
  by (simp add: disconnect_def Let_def split: option.splits)

lemma disconnect_idempotent: "disconnect (disconnect s) = disconnect s"
  by (simp add: disconnect_def Let_def split: option.splits)

text \<open>
  Claim C4 on the code. After \<open>disconnect()\<close> on a connected instance no timer is set and
  the socket is destroyed; when Node then delivers \<open>close\<close> for that socket, the listener
  schedules a reconnect, and when the timer fires the instance opens a new socket.
\<close>

theorem disconnect_then_close_reconnects:
  "\<not> reconnectTimer exampleDisconnected \<and> socket exampleDisconnected = None
   \<and> sockets exampleDisconnected = [SockDestroyed]
   \<and> reconnectTimer (ipcStep (SocketClose 0) exampleDisconnected)
   \<and> socket (run [SocketClose 0, ReconnectTimeout] exampleDisconnected) = Some 1
   \<and> sockets (run [SocketClose 0, ReconnectTimeout] exampleDisconnected) =
       [SockClosed, SockConnecting]"
  by (simp add: exampleDisconnected_def ipc_eval)

lemmas manager_eval =
  registry_eval disconnectFromProject_def deliver_def liveTransports_def liveSockets_def
  checkConnectionHealth_def healthBody_def isConnectionHealthy_def mapDelete_def
  disconnect_def onClose_def scheduleReconnect_def reconnectTimeout_def

subsection \<open>Transports per target\<close>

text \<open>
  Claim C3 on the code. \<open>/proj/A\<close> is connected, disconnected and connected again: one
  socket is open. The first instance, no longer in the registry, then gets \<open>close\<close> for its
  destroyed socket, its reconnect timer fires and the editor accepts the new connection: two
  sockets are open for \<open>/proj/A\<close>.
\<close>

theorem two_live_transports_after_reconnect:
  "liveTransports exampleReconnect ''/proj/A'' = 1
   \<and> liveTransports
        (deliver 0 (SocketConnect 1) 0
          (deliver 0 ReconnectTimeout 0 (deliver 0 (SocketClose 0) 0 exampleReconnect)))
        ''/proj/A'' = 2"
  by (simp add: exampleReconnect_def manager_eval)

text \<open>
  The same without any reconnect timer: an entry set to \<open>error\<close> by a sweep is connected
  again; the instance stored for it is replaced without being disconnected.
\<close>

lemma two_live_transports_after_error:
  "liveTransports exampleAfterError ''/proj/A'' = 2
   \<and> map snd (unityIPCConnections exampleAfterError) = [1]"
  by (simp add: exampleAfterError_def manager_eval)

end
